theory Spec2Isabelle
  imports Complex_Main
begin

section \<open>Python floats\<close>

text \<open>
  The coordinates and the fare of \<^verbatim>\<open>taxi_app.py\<close> are Python floats, that is,
  IEEE 754 binary64 numbers. A float is a finite number, one of the two infinities, or
  NaN. Every arithmetic operation computes the exact result and rounds it to the
  nearest binary64 number, to the one with the even significand when two are equally
  near, and to an infinity when the rounded result is too large. The sign of zero is
  not modelled: \<^verbatim>\<open>-0.0\<close> and \<^verbatim>\<open>0.0\<close> compare equal, and no branch of the
  program depends on it.
\<close>

datatype pyfloat = Finite real | PosInf | NegInf | NaN

text \<open>The nearest integer, the even one when two are equally near.\<close>

definition round_half_even :: "real \<Rightarrow> int" where
  "round_half_even r =
     (let n = \<lfloor>r\<rfloor>; d = r - of_int n
      in if d < 1 / 2 then n else if 1 / 2 < d then n + 1
         else if even n then n else n + 1)"

text \<open>
  A binary64 number is \<open>m * 2 ^ e\<close> with an integer \<open>m\<close> of at most 53 bits and
  \<open>-1074 \<le> e\<close>. The numbers next to \<open>x\<close> are the multiples of \<open>2 ^ e\<close> for
  \<open>e = \<lfloor>log\<^sub>2 \<bar>x\<bar>\<rfloor> - 52\<close>, and of \<open>2 ^ -1074\<close> for the subnormal ones.
  \<open>binary64_nearest x\<close> is the rounded value when the exponent has no upper limit;
  \<open>binary64 x\<close> is the float that the operation returns, an infinity from
  \<open>2 ^ 1024\<close> on.
\<close>

definition binary64_exponent :: "real \<Rightarrow> int" where
  "binary64_exponent x = max (\<lfloor>log 2 \<bar>x\<bar>\<rfloor> - 52) (- 1074)"

definition binary64_nearest :: "real \<Rightarrow> real" where
  "binary64_nearest x =
     of_int (round_half_even (x / 2 powr of_int (binary64_exponent x))) *
       2 powr of_int (binary64_exponent x)"

definition binary64 :: "real \<Rightarrow> pyfloat" where
  "binary64 x =
     (let v = binary64_nearest x
      in if 2 ^ 1024 \<le> v then PosInf else if v \<le> - (2 ^ 1024) then NegInf else Finite v)"

text \<open>Python's \<^verbatim>\<open>-a\<close> on floats: exact.\<close>

fun fneg :: "pyfloat \<Rightarrow> pyfloat" where
  "fneg (Finite a) = Finite (- a)"
| "fneg PosInf = NegInf"
| "fneg NegInf = PosInf"
| "fneg NaN = NaN"

text \<open>Python's \<^verbatim>\<open>a + b\<close> on floats.\<close>

fun fadd :: "pyfloat \<Rightarrow> pyfloat \<Rightarrow> pyfloat" where
  "fadd NaN b = NaN"
| "fadd a NaN = NaN"
| "fadd (Finite a) (Finite b) = binary64 (a + b)"
| "fadd PosInf NegInf = NaN"
| "fadd NegInf PosInf = NaN"
| "fadd PosInf b = PosInf"
| "fadd a PosInf = PosInf"
| "fadd NegInf b = NegInf"
| "fadd a NegInf = NegInf"

text \<open>Python's \<^verbatim>\<open>a - b\<close> on floats: IEEE subtraction is addition of the negation.\<close>

definition fsub :: "pyfloat \<Rightarrow> pyfloat \<Rightarrow> pyfloat" where
  "fsub a b = fadd a (fneg b)"

text \<open>Python's \<^verbatim>\<open>a * b\<close> on floats: an infinity times zero is NaN.\<close>

fun fmul :: "pyfloat \<Rightarrow> pyfloat \<Rightarrow> pyfloat" where
  "fmul NaN b = NaN"
| "fmul a NaN = NaN"
| "fmul (Finite a) (Finite b) = binary64 (a * b)"
| "fmul (Finite a) PosInf = (if a = 0 then NaN else if 0 < a then PosInf else NegInf)"
| "fmul (Finite a) NegInf = (if a = 0 then NaN else if 0 < a then NegInf else PosInf)"
| "fmul PosInf (Finite b) = (if b = 0 then NaN else if 0 < b then PosInf else NegInf)"
| "fmul NegInf (Finite b) = (if b = 0 then NaN else if 0 < b then NegInf else PosInf)"
| "fmul PosInf PosInf = PosInf"
| "fmul PosInf NegInf = NegInf"
| "fmul NegInf PosInf = NegInf"
| "fmul NegInf NegInf = PosInf"

text \<open>Python's \<^verbatim>\<open>a < b\<close> on floats: every comparison with NaN is false.\<close>

fun flt :: "pyfloat \<Rightarrow> pyfloat \<Rightarrow> bool" where
  "flt NaN b = False"
| "flt a NaN = False"
| "flt (Finite a) (Finite b) = (a < b)"
| "flt a NegInf = False"
| "flt PosInf b = False"
| "flt NegInf b = True"
| "flt a PosInf = True"

definition isinf :: "pyfloat \<Rightarrow> bool" where
  "isinf a = (a = PosInf \<or> a = NegInf)"

text \<open>
  \<^verbatim>\<open>math.hypot(a, b)\<close>: the Euclidean norm, rounded once. An infinite argument
  gives \<^verbatim>\<open>inf\<close> even when the other one is NaN; otherwise a NaN argument gives NaN;
  a norm that is too large gives \<^verbatim>\<open>inf\<close>. The function is taken to return the
  binary64 number nearest to the exact norm, which is what CPython computes but for
  rare inputs where its result is the neighbour of it (its error stays below one unit
  in the last place).
\<close>

fun hypot :: "pyfloat \<Rightarrow> pyfloat \<Rightarrow> pyfloat" where
  "hypot (Finite a) (Finite b) = binary64 (sqrt (a\<^sup>2 + b\<^sup>2))"
| "hypot a b = (if isinf a \<or> isinf b then PosInf else NaN)"

text \<open>
  \<^verbatim>\<open>round(v, ndigits)\<close> on a float, for \<open>ndigits \<ge> 0\<close>: infinities and NaN round
  to themselves. A finite value is rounded to the nearest multiple of
  \<open>10 ^ -ndigits\<close>, a value halfway between two of them to the even one, and the
  float returned is the binary64 number nearest to that decimal number.
\<close>

fun round_float :: "pyfloat \<Rightarrow> nat \<Rightarrow> pyfloat" where
  "round_float (Finite r) ndigits =
     binary64 (of_int (round_half_even (r * 10 ^ ndigits)) / 10 ^ ndigits)"
| "round_float v ndigits = v"

section \<open>Python dictionaries\<close>

text \<open>
  A \<^verbatim>\<open>dict\<close> keeps its keys in insertion order, and \<^verbatim>\<open>values()\<close> iterates
  in that order: it is an association list. \<^verbatim>\<open>d[k] = v\<close> replaces the value of a
  key that is present, in place, and appends a new key at the end.
\<close>

type_synonym ('k, 'v) dict = "('k \<times> 'v) list"

fun dict_get :: "('k, 'v) dict \<Rightarrow> 'k \<Rightarrow> 'v option" where
  "dict_get [] k = None"
| "dict_get ((k', v) # d) k = (if k' = k then Some v else dict_get d k)"

fun dict_set :: "('k, 'v) dict \<Rightarrow> 'k \<Rightarrow> 'v \<Rightarrow> ('k, 'v) dict" where
  "dict_set [] k v = [(k, v)]"
| "dict_set ((k', v') # d) k v =
     (if k' = k then (k, v) # d else (k', v') # dict_set d k v)"

definition dict_values :: "('k, 'v) dict \<Rightarrow> 'v list" where
  "dict_values d = map snd d"

section \<open>The data classes\<close>

text \<open>
  The fields \<^verbatim>\<open>id\<close> and \<^verbatim>\<open>name\<close> of the three classes carry the initial of
  their class here (\<open>r_id\<close>, \<open>d_id\<close>, \<open>ride_id\<close>), as do \<^verbatim>\<open>Driver.x\<close> and
  \<^verbatim>\<open>Driver.y\<close>.

  A \<^verbatim>\<open>Driver\<close> object is mutated through two paths, the dictionary
  \<^verbatim>\<open>self.drivers\<close> and the field \<^verbatim>\<open>driver\<close> of a ride, so drivers live in a
  store and both paths hold a reference into it. A reference is the index of the
  object in the store, in the order of allocation. A \<^verbatim>\<open>Rider\<close> is never mutated,
  and a \<^verbatim>\<open>Ride\<close> is mutated only through the dictionary \<^verbatim>\<open>self.rides\<close>: both
  are held by value.
\<close>

record Rider =
  r_id :: int
  r_name :: string

record Driver =
  d_id :: int
  d_name :: string
  d_x :: pyfloat
  d_y :: pyfloat
  available :: bool

type_synonym ref = nat

record Ride =
  ride_id :: int
  rider :: Rider
  driver :: ref
  start_x :: pyfloat
  start_y :: pyfloat
  dest_x :: pyfloat
  dest_y :: pyfloat
  fare :: pyfloat
  completed :: bool

text \<open>
  The state of a \<^verbatim>\<open>TaxiApp\<close>: its three dictionaries, its three counters
  (\<^verbatim>\<open>_rider_id\<close>, \<^verbatim>\<open>_driver_id\<close>, \<^verbatim>\<open>_ride_id\<close>) and the store of the
  \<^verbatim>\<open>Driver\<close> objects.
\<close>

record TaxiApp =
  riders :: "(int, Rider) dict"
  drivers :: "(int, ref) dict"
  rides :: "(int, Ride) dict"
  next_rider_id :: int
  next_driver_id :: int
  next_ride_id :: int
  heap :: "Driver list"

text \<open>
  What the methods print, one constructor for each \<^verbatim>\<open>print\<close> of the class, with
  the values its f-string formats:
  \<^item> \<open>RegisteredRider name id\<close>: \<^verbatim>\<open>Registered rider {name} with ID {id}\<close>
  \<^item> \<open>RegisteredDriver name id x y\<close>:
    \<^verbatim>\<open>Registered driver {name} with ID {id} at location ({x}, {y})\<close>
  \<^item> \<open>RiderNotFound\<close>: \<^verbatim>\<open>Rider not found\<close>
  \<^item> \<open>NoAvailableDrivers\<close>: \<^verbatim>\<open>No available drivers\<close>
  \<^item> \<open>RideStarted id name fare\<close>:
    \<^verbatim>\<open>Ride {id} started with driver {name}. Fare will be {fare}\<close>
  \<^item> \<open>RideNotFound\<close>: \<^verbatim>\<open>Ride not found\<close>
  \<^item> \<open>RideAlreadyCompleted\<close>: \<^verbatim>\<open>Ride already completed\<close>
  \<^item> \<open>RideCompleted id fare\<close>: \<^verbatim>\<open>Ride {id} completed. Fare was {fare}\<close>
  \<^item> \<open>RideLine id status rider driver\<close>:
    \<^verbatim>\<open>Ride {id} ({status}): Rider {rider} -> Driver {driver}\<close>
\<close>

datatype message =
    RegisteredRider string int
  | RegisteredDriver string int pyfloat pyfloat
  | RiderNotFound
  | NoAvailableDrivers
  | RideStarted int string pyfloat
  | RideNotFound
  | RideAlreadyCompleted
  | RideCompleted int pyfloat
  | RideLine int string string string

section \<open>The methods of TaxiApp\<close>

text \<open>
  A method takes the state and returns the value it returns in Python, the lines it
  prints and the state it leaves. A method that returns \<^verbatim>\<open>None\<close> on every path
  returns \<open>()\<close>.
\<close>

definition init :: TaxiApp where
  "init = \<lparr>riders = [], drivers = [], rides = [],
           next_rider_id = 1, next_driver_id = 1, next_ride_id = 1, heap = []\<rparr>"

definition register_rider :: "TaxiApp \<Rightarrow> string \<Rightarrow> Rider \<times> message list \<times> TaxiApp" where
  "register_rider s name =
     (let rider = \<lparr>r_id = next_rider_id s, r_name = name\<rparr>
      in (rider, [RegisteredRider (r_name rider) (r_id rider)],
          s\<lparr>riders := dict_set (riders s) (next_rider_id s) rider,
            next_rider_id := next_rider_id s + 1\<rparr>))"

definition register_driver ::
  "TaxiApp \<Rightarrow> string \<Rightarrow> pyfloat \<Rightarrow> pyfloat \<Rightarrow> ref \<times> message list \<times> TaxiApp" where
  "register_driver s name x y =
     (let new = \<lparr>d_id = next_driver_id s, d_name = name, d_x = x, d_y = y, available = True\<rparr>;
          a = length (heap s)
      in (a, [RegisteredDriver (d_name new) (d_id new) x y],
          s\<lparr>heap := heap s @ [new],
            drivers := dict_set (drivers s) (next_driver_id s) a,
            next_driver_id := next_driver_id s + 1\<rparr>))"

text \<open>
  The loop of \<^verbatim>\<open>_find_closest_driver\<close> over \<^verbatim>\<open>self.drivers.values()\<close>, with
  its two variables \<^verbatim>\<open>closest\<close> and \<^verbatim>\<open>closest_dist\<close>.
\<close>

fun closest_loop ::
  "Driver list \<Rightarrow> pyfloat \<Rightarrow> pyfloat \<Rightarrow> ref list \<Rightarrow> ref option \<times> pyfloat \<Rightarrow> ref option \<times> pyfloat" where
  "closest_loop h x y [] (closest, closest_dist) = (closest, closest_dist)"
| "closest_loop h x y (a # as) (closest, closest_dist) =
     (if \<not> available (h ! a) then closest_loop h x y as (closest, closest_dist)
      else let dist = hypot (fsub (d_x (h ! a)) x) (fsub (d_y (h ! a)) y)
           in if flt dist closest_dist then closest_loop h x y as (Some a, dist)
              else closest_loop h x y as (closest, closest_dist))"

definition find_closest_driver :: "TaxiApp \<Rightarrow> pyfloat \<Rightarrow> pyfloat \<Rightarrow> ref option" where
  "find_closest_driver s x y =
     fst (closest_loop (heap s) x y (dict_values (drivers s)) (None, PosInf))"

definition request_ride ::
  "TaxiApp \<Rightarrow> int \<Rightarrow> pyfloat \<Rightarrow> pyfloat \<Rightarrow> pyfloat \<Rightarrow> pyfloat \<Rightarrow> Ride option \<times> message list \<times> TaxiApp" where
  "request_ride s rid sx sy dx dy =
     (case dict_get (riders s) rid of
        None \<Rightarrow> (None, [RiderNotFound], s)
      | Some r \<Rightarrow>
          (case find_closest_driver s sx sy of
             None \<Rightarrow> (None, [NoAvailableDrivers], s)
           | Some a \<Rightarrow>
               (let h = (heap s)[a := (heap s ! a)\<lparr>available := False\<rparr>];
                    distance = hypot (fsub dx sx) (fsub dy sy);
                    f = round_float (fadd (Finite 250) (fmul distance (Finite 100))) 2;
                    ride = \<lparr>ride_id = next_ride_id s, rider = r, driver = a,
                            start_x = sx, start_y = sy, dest_x = dx, dest_y = dy,
                            fare = f, completed = False\<rparr>
                in (Some ride, [RideStarted (ride_id ride) (d_name (h ! a)) f],
                    s\<lparr>heap := h,
                      rides := dict_set (rides s) (next_ride_id s) ride,
                      next_ride_id := next_ride_id s + 1\<rparr>))))"

definition complete_ride :: "TaxiApp \<Rightarrow> int \<Rightarrow> unit \<times> message list \<times> TaxiApp" where
  "complete_ride s k =
     (case dict_get (rides s) k of
        None \<Rightarrow> ((), [RideNotFound], s)
      | Some ride \<Rightarrow>
          if completed ride then ((), [RideAlreadyCompleted], s)
          else
            (let a = driver ride;
                 h = (heap s)[a := (heap s ! a)\<lparr>available := True,
                                               d_x := dest_x ride, d_y := dest_y ride\<rparr>]
             in ((), [RideCompleted (ride_id ride) (fare ride)],
                 s\<lparr>rides := dict_set (rides s) k (ride\<lparr>completed := True\<rparr>),
                   heap := h\<rparr>)))"

definition list_rides :: "TaxiApp \<Rightarrow> unit \<times> message list \<times> TaxiApp" where
  "list_rides s =
     ((), map (\<lambda>ride. RideLine (ride_id ride)
                        (if completed ride then ''completed'' else ''active'')
                        (r_name (rider ride)) (d_name (heap s ! driver ride)))
              (dict_values (rides s)), s)"

section \<open>The menu loop\<close>

text \<open>
  One turn of the loop of \<^verbatim>\<open>main\<close>, after the input of the turn has been parsed:
  choices 1 to 5 each call one method of the application.
\<close>

datatype command =
    RegisterRider string
  | RegisterDriver string pyfloat pyfloat
  | RequestRide int pyfloat pyfloat pyfloat pyfloat
  | CompleteRide int
  | ListRides

fun exec :: "TaxiApp \<Rightarrow> command \<Rightarrow> TaxiApp" where
  "exec s (RegisterRider name) = snd (snd (register_rider s name))"
| "exec s (RegisterDriver name x y) = snd (snd (register_driver s name x y))"
| "exec s (RequestRide rid sx sy dx dy) = snd (snd (request_ride s rid sx sy dx dy))"
| "exec s (CompleteRide k) = snd (snd (complete_ride s k))"
| "exec s ListRides = snd (snd (list_rides s))"

fun run :: "TaxiApp \<Rightarrow> command list \<Rightarrow> TaxiApp" where
  "run s [] = s"
| "run s (c # cs) = run (exec s c) cs"

text \<open>
  The states of the application are the states \<open>run init cs\<close>: what a sequence of
  calls makes of a new application.
\<close>

section \<open>Notions used by the properties\<close>

text \<open>Python's \<^verbatim>\<open>a <= b\<close> on floats.\<close>

definition fle :: "pyfloat \<Rightarrow> pyfloat \<Rightarrow> bool" where
  "fle a b = (flt a b \<or> (a = b \<and> a \<noteq> NaN))"

text \<open>
  The distance that \<^verbatim>\<open>_find_closest_driver\<close> computes for the driver at
  reference \<open>a\<close>.
\<close>

definition driver_distance :: "Driver list \<Rightarrow> ref \<Rightarrow> pyfloat \<Rightarrow> pyfloat \<Rightarrow> pyfloat" where
  "driver_distance h a x y = hypot (fsub (d_x (h ! a)) x) (fsub (d_y (h ! a)) y)"

text \<open>
  The invariant of the application. The keys of each dictionary are \<open>1, 2, ...\<close> up
  to the counter, in insertion order, and every entity is stored under its own id. The
  driver registered \<open>i\<close>-th is the \<open>i\<close>-th object of the store. Every ride
  refers to a registered rider and to a driver of the store; the driver of an active
  ride is unavailable, and two active rides never share a driver.
\<close>

definition consistent :: "TaxiApp \<Rightarrow> bool" where
  "consistent s \<longleftrightarrow>
     1 \<le> next_rider_id s \<and>
     map fst (riders s) = [1 .. next_rider_id s - 1] \<and>
     (\<forall>(k, r) \<in> set (riders s). r_id r = k) \<and>
     drivers s = map (\<lambda>i. (int i + 1, i)) [0 ..< length (heap s)] \<and>
     next_driver_id s = int (length (heap s)) + 1 \<and>
     (\<forall>i < length (heap s). d_id (heap s ! i) = int i + 1) \<and>
     1 \<le> next_ride_id s \<and>
     map fst (rides s) = [1 .. next_ride_id s - 1] \<and>
     (\<forall>(k, r) \<in> set (rides s). ride_id r = k \<and> driver r < length (heap s) \<and>
         (r_id (rider r), rider r) \<in> set (riders s) \<and>
         (\<not> completed r \<longrightarrow> \<not> available (heap s ! driver r))) \<and>
     (\<forall>(k1, r1) \<in> set (rides s). \<forall>(k2, r2) \<in> set (rides s).
         \<not> completed r1 \<and> \<not> completed r2 \<and> driver r1 = driver r2 \<longrightarrow> k1 = k2)"

text \<open>Small runs of the application, on which the properties are tried.\<close>

definition demo_rider_only :: TaxiApp where
  "demo_rider_only = run init [RegisterRider ''ann'']"

definition demo_ride_done :: TaxiApp where
  "demo_ride_done =
     run init [RegisterRider ''ann'', RegisterDriver ''bob'' (Finite 0) (Finite 0),
               RequestRide 1 (Finite 0) (Finite 0) (Finite 1) (Finite 0), CompleteRide 1]"

definition demo_two_drivers :: TaxiApp where
  "demo_two_drivers =
     run init [RegisterRider ''ann'', RegisterDriver ''bob'' (Finite 0) (Finite 0),
               RegisterDriver ''cy'' (Finite 10) (Finite 10)]"

definition demo_active :: TaxiApp where
  "demo_active =
     run init [RegisterRider ''ann'', RegisterDriver ''bob'' (Finite 0) (Finite 0),
               RegisterDriver ''cy'' (Finite 10) (Finite 10),
               RequestRide 1 (Finite 1) (Finite 1) (Finite 2) (Finite 1)]"

definition demo_two_rides :: TaxiApp where
  "demo_two_rides =
     run init [RegisterRider ''ann'', RegisterDriver ''bob'' (Finite 0) (Finite 0),
               RegisterDriver ''cy'' (Finite 10) (Finite 10),
               RequestRide 1 (Finite 1) (Finite 1) (Finite 2) (Finite 1),
               RequestRide 1 (Finite 1) (Finite 1) (Finite 2) (Finite 1)]"

definition demo_mixed :: TaxiApp where
  "demo_mixed =
     run init [RegisterRider ''ann'', RegisterDriver ''bob'' (Finite 0) (Finite 0),
               RegisterDriver ''cy'' (Finite 10) (Finite 10),
               RequestRide 1 (Finite 1) (Finite 1) (Finite 2) (Finite 1),
               RequestRide 1 (Finite 1) (Finite 1) (Finite 2) (Finite 1),
               CompleteRide 1]"

definition demo_tie :: TaxiApp where
  "demo_tie =
     run init [RegisterRider ''ann'', RegisterDriver ''bob'' (Finite 0) (Finite 0),
               RegisterDriver ''cy'' (Finite 2) (Finite 2)]"



text \<open>
  Three binary64 numbers and two more small runs, for the places where binary64
  arithmetic and exact arithmetic part.
\<close>

definition tiny :: real where
  "tiny = 1 / 2 ^ 30"


definition half_range :: real where
  "half_range = 2 ^ 1023"

definition demo_near :: TaxiApp where
  "demo_near =
     run init [RegisterRider ''ann'', RegisterDriver ''bob'' (Finite 1) (Finite tiny),
               RegisterDriver ''cy'' (Finite 1) (Finite 0)]"


section \<open>The order of floats\<close>

lemma flt_trans: "flt a b \<Longrightarrow> flt b c \<Longrightarrow> flt a c"
  by (cases a; cases b; cases c) auto




lemma fle_flt_trans: "fle a b \<Longrightarrow> flt b c \<Longrightarrow> flt a c"
  by (auto simp: fle_def dest: flt_trans)

lemma flt_not_fle: "flt a b \<Longrightarrow> \<not> fle b a"
  by (cases a; cases b) (auto simp: fle_def)

lemma flt_irrefl: "\<not> flt a a"
  by (cases a) simp_all

section \<open>Rounding to binary64\<close>

text \<open>
  Rounding is monotone on the non-negative numbers, leaves the integers below
  \<open>2 ^ 53\<close> and the powers of two as they are, and gives \<^verbatim>\<open>inf\<close> from
  \<open>2 ^ 1024\<close> on.
\<close>

lemma round_half_even_cases:
  "round_half_even r = \<lfloor>r\<rfloor> \<or> round_half_even r = \<lfloor>r\<rfloor> + 1"
  by (simp add: round_half_even_def Let_def)

lemma round_half_even_low: "of_int n \<le> r \<Longrightarrow> r < of_int n + 1 / 2 \<Longrightarrow> round_half_even r = n"
proof -
  assume a: "of_int n \<le> r" "r < of_int n + 1 / 2"
  then have "\<lfloor>r\<rfloor> = n" by linarith
  with a show ?thesis by (simp add: round_half_even_def Let_def)
qed

lemma round_half_even_int: "round_half_even (of_int n) = n"
  by (rule round_half_even_low) simp_all

lemma round_half_even_mono:
  assumes "a \<le> b"
  shows "round_half_even a \<le> round_half_even b"
proof (cases "\<lfloor>a\<rfloor> < \<lfloor>b\<rfloor>")
  case True
  have "round_half_even a \<le> \<lfloor>a\<rfloor> + 1" using round_half_even_cases[of a] by auto
  moreover have "\<lfloor>b\<rfloor> \<le> round_half_even b" using round_half_even_cases[of b] by auto
  ultimately show ?thesis using True by linarith
next
  case False
  moreover have "\<lfloor>a\<rfloor> \<le> \<lfloor>b\<rfloor>" using assms by (rule floor_mono)
  ultimately have e: "\<lfloor>a\<rfloor> = \<lfloor>b\<rfloor>" by simp
  have "a - of_int \<lfloor>b\<rfloor> \<le> b - of_int \<lfloor>b\<rfloor>" using assms by simp
  then show ?thesis unfolding round_half_even_def Let_def e by auto
qed

lemma exponent_pos:
  assumes "0 < x"
  shows "2 powr of_int (\<lfloor>log 2 x\<rfloor>) \<le> x" and "x < 2 powr of_int (\<lfloor>log 2 x\<rfloor> + 1)"
  using floor_log_eq_powr_iff[of x 2 "\<lfloor>log 2 x\<rfloor>"] assms by simp_all

lemma binary64_exponent_upper:
  assumes "0 < x"
  shows "x < 2 powr of_int (binary64_exponent x + 53)"
proof -
  have "\<lfloor>log 2 x\<rfloor> + 1 \<le> binary64_exponent x + 53"
    using assms by (simp add: binary64_exponent_def)
  then have "2 powr of_int (\<lfloor>log 2 x\<rfloor> + 1) \<le> (2::real) powr of_int (binary64_exponent x + 53)"
    by (intro powr_mono) simp_all
  with exponent_pos(2)[OF assms] show ?thesis by linarith
qed

lemma binary64_exponent_lower:
  assumes "0 < x" and "- 1074 < binary64_exponent x"
  shows "2 powr of_int (binary64_exponent x + 52) \<le> x"
proof -
  have "binary64_exponent x = \<lfloor>log 2 x\<rfloor> - 52"
    using assms by (simp add: binary64_exponent_def max_def split: if_splits)
  then have "binary64_exponent x + 52 = \<lfloor>log 2 x\<rfloor>" by simp
  with exponent_pos(1)[OF assms(1)] show ?thesis by simp
qed

lemma binary64_exponent_mono:
  assumes "0 < x" and "x \<le> y"
  shows "binary64_exponent x \<le> binary64_exponent y"
proof -
  have "log 2 x \<le> log 2 y" using assms by (intro log_mono) simp_all
  then have "\<lfloor>log 2 x\<rfloor> \<le> \<lfloor>log 2 y\<rfloor>" by (rule floor_mono)
  then show ?thesis using assms by (simp add: binary64_exponent_def)
qed

lemma binary64_exponent_eq:
  assumes "2 powr of_int (e + 52) \<le> \<bar>x\<bar>" and "\<bar>x\<bar> < 2 powr of_int (e + 53)" and "- 1074 \<le> e"
  shows "binary64_exponent x = e"
proof -
  have "(0::real) < 2 powr of_int (e + 52)" by simp
  with assms(1) have p: "0 < \<bar>x\<bar>" by linarith
  have "\<lfloor>log 2 \<bar>x\<bar>\<rfloor> = e + 52"
    using floor_log_eq_powr_iff[of "\<bar>x\<bar>" 2 "e + 52"] p assms(1,2) by (simp add: add.commute add.left_commute)
  then show ?thesis using assms(3) by (simp add: binary64_exponent_def)
qed

lemma binary64_nearest_nonneg: "0 \<le> x \<Longrightarrow> 0 \<le> binary64_nearest x"
proof -
  assume "0 \<le> x"
  then have "0 \<le> x / 2 powr of_int (binary64_exponent x)" by simp
  then have "round_half_even 0 \<le> round_half_even (x / 2 powr of_int (binary64_exponent x))"
    by (rule round_half_even_mono)
  then have "0 \<le> round_half_even (x / 2 powr of_int (binary64_exponent x))"
    using round_half_even_int[of 0] by simp
  then show ?thesis by (simp add: binary64_nearest_def)
qed

lemma binary64_nearest_zero: "binary64_nearest 0 = 0"
  using round_half_even_int[of 0] by (simp add: binary64_nearest_def)

lemma binary64_nearest_mono_pos:
  assumes x: "0 < x" and xy: "x \<le> y"
  shows "binary64_nearest x \<le> binary64_nearest y"
proof -
  let ?ex = "binary64_exponent x" and ?ey = "binary64_exponent y"
  have y: "0 < y" using x xy by simp
  have le: "?ex \<le> ?ey" by (rule binary64_exponent_mono[OF x xy])
  show ?thesis
  proof (cases "?ex = ?ey")
    case True
    have "x / 2 powr of_int ?ey \<le> y / 2 powr of_int ?ey"
      using xy by (simp add: divide_right_mono)
    then have "round_half_even (x / 2 powr of_int ?ey) \<le> round_half_even (y / 2 powr of_int ?ey)"
      by (rule round_half_even_mono)
    then have "real_of_int (round_half_even (x / 2 powr of_int ?ey)) * 2 powr of_int ?ey
             \<le> real_of_int (round_half_even (y / 2 powr of_int ?ey)) * 2 powr of_int ?ey"
      by (simp add: mult_right_mono)
    then show ?thesis unfolding binary64_nearest_def True .
  next
    case False
    with le have lt: "?ex + 1 \<le> ?ey" by simp
    have "- 1074 \<le> ?ex" by (simp add: binary64_exponent_def)
    with lt have "- 1074 < ?ey" by simp
    from binary64_exponent_lower[OF y this]
    have "2 powr of_int (?ey + 52) / 2 powr of_int ?ey \<le> y / 2 powr of_int ?ey"
      by (simp add: divide_right_mono)
    moreover have "(2::real) powr of_int (?ey + 52) / 2 powr of_int ?ey = of_int (2 ^ 52)"
      by (simp add: powr_add)
    ultimately have "round_half_even (of_int (2 ^ 52)) \<le> round_half_even (y / 2 powr of_int ?ey)"
      by (metis round_half_even_mono)
    then have "2 ^ 52 \<le> round_half_even (y / 2 powr of_int ?ey)"
      unfolding round_half_even_int .
    then have "real_of_int (2 ^ 52) \<le> real_of_int (round_half_even (y / 2 powr of_int ?ey))"
      by (rule of_int_le_iff[THEN iffD2])
    then have "real_of_int (2 ^ 52) * 2 powr of_int ?ey \<le> binary64_nearest y"
      unfolding binary64_nearest_def by (simp add: mult_right_mono)
    then have ylow: "2 powr of_int (?ey + 52) \<le> binary64_nearest y"
      by (simp add: powr_add mult.commute)
    have "x / 2 powr of_int ?ex \<le> 2 powr of_int (?ex + 53) / 2 powr of_int ?ex"
      using binary64_exponent_upper[OF x] by (simp add: divide_right_mono)
    moreover have "(2::real) powr of_int (?ex + 53) / 2 powr of_int ?ex = of_int (2 ^ 53)"
      by (simp add: powr_add)
    ultimately have "round_half_even (x / 2 powr of_int ?ex) \<le> round_half_even (of_int (2 ^ 53))"
      by (metis round_half_even_mono)
    then have "round_half_even (x / 2 powr of_int ?ex) \<le> 2 ^ 53"
      unfolding round_half_even_int .
    then have "real_of_int (round_half_even (x / 2 powr of_int ?ex)) \<le> real_of_int (2 ^ 53)"
      by (rule of_int_le_iff[THEN iffD2])
    then have "binary64_nearest x \<le> real_of_int (2 ^ 53) * 2 powr of_int ?ex"
      unfolding binary64_nearest_def by (simp add: mult_right_mono)
    then have xup: "binary64_nearest x \<le> 2 powr of_int (?ex + 53)"
      by (simp add: powr_add mult.commute)
    have "(2::real) powr of_int (?ex + 53) \<le> 2 powr of_int (?ey + 52)"
      using lt by (intro powr_mono) simp_all
    with xup ylow show ?thesis by linarith
  qed
qed

lemma binary64_nearest_mono:
  assumes "0 \<le> x" and "x \<le> y"
  shows "binary64_nearest x \<le> binary64_nearest y"
proof (cases "x = 0")
  case True
  with assms binary64_nearest_nonneg[of y] show ?thesis by (simp add: binary64_nearest_zero)
next
  case False
  with assms have "0 < x" by simp
  then show ?thesis using assms(2) by (rule binary64_nearest_mono_pos)
qed

lemma binary64_nearest_exact:
  assumes "x = of_int m * 2 powr of_int (binary64_exponent x)"
  shows "binary64_nearest x = x"
proof -
  have "x / 2 powr of_int (binary64_exponent x) = of_int m"
    using assms by (metis nonzero_mult_div_cancel_right powr_gt_zero less_numeral_extra(3) zero_less_numeral)
  then show ?thesis unfolding binary64_nearest_def using assms round_half_even_int by simp
qed

lemma binary64_nearest_pow2:
  assumes "- 1022 \<le> k"
  shows "binary64_nearest (2 powr of_int k) = 2 powr of_int k"
proof -
  have e: "binary64_exponent (2 powr of_int k) = k - 52"
    by (rule binary64_exponent_eq) (use assms in \<open>simp_all add: powr_add\<close>)
  have "(2::real) powr of_int k = of_int (2 ^ 52) * 2 powr of_int (k - 52)"
    by (simp add: powr_diff)
  then show ?thesis using binary64_nearest_exact[of "2 powr of_int k" "2 ^ 52"] e by simp
qed

lemma binary64_nearest_power: "binary64_nearest (2 ^ n) = 2 ^ n"
  using binary64_nearest_pow2[of "int n"] by (simp add: powr_realpow)

lemma binary64_nearest_inverse_power:
  assumes "n \<le> 1022"
  shows "binary64_nearest (1 / 2 ^ n) = 1 / 2 ^ n"
proof -
  have "(2::real) powr of_int (- int n) = 1 / 2 ^ n"
    by (simp add: powr_minus powr_realpow divide_inverse)
  then show ?thesis using binary64_nearest_pow2[of "- int n"] assms by simp
qed

lemma real_abs_less_power:
  assumes "\<bar>n\<bar> < (2::int) ^ k"
  shows "\<bar>real_of_int n\<bar> < 2 ^ k"
proof -
  from assms have "real_of_int \<bar>n\<bar> < real_of_int (2 ^ k)" by (rule of_int_less_iff[THEN iffD2])
  then show ?thesis by simp
qed

lemma binary64_nearest_int:
  assumes "\<bar>n\<bar> < 2 ^ 53"
  shows "binary64_nearest (of_int n) = of_int n"
proof (cases "n = 0")
  case True
  then show ?thesis by (simp add: binary64_nearest_zero)
next
  case False
  let ?x = "real_of_int n"
  let ?e = "binary64_exponent ?x"
  have p: "0 < \<bar>?x\<bar>" using False by simp
  have "(2::real) powr of_int 53 = 2 ^ 53" by (simp only: powr_int) simp
  then have "\<bar>?x\<bar> < 2 powr of_int 53" using real_abs_less_power[OF assms] by simp
  then have "log 2 \<bar>?x\<bar> < of_int 53" using p by (simp only: log_less_iff[of 2 "\<bar>?x\<bar>", OF _ p] one_less_numeral_iff semiring_norm)
  then have "\<lfloor>log 2 \<bar>?x\<bar>\<rfloor> < 53" by (simp only: floor_less_iff)
  then have le: "?e \<le> 0" by (simp add: binary64_exponent_def)
  then have "(2::real) powr of_int ?e = 1 / 2 ^ nat (- ?e)" by (simp add: powr_int)
  then have "?x = of_int (n * 2 ^ nat (- ?e)) * 2 powr of_int ?e" by simp
  then show ?thesis by (rule binary64_nearest_exact)
qed

lemma binary64_int:
  assumes "\<bar>n\<bar> < 2 ^ 53"
  shows "binary64 (of_int n) = Finite (of_int n)"
proof -
  have "\<bar>real_of_int n\<bar> < 2 ^ 53" using assms by (rule real_abs_less_power)
  moreover have "(2::real) ^ 53 \<le> 2 ^ 1024" by (rule power_increasing) simp_all
  ultimately have "\<not> 2 ^ 1024 \<le> real_of_int n" "\<not> real_of_int n \<le> - (2 ^ 1024)" by linarith+
  then show ?thesis unfolding binary64_def binary64_nearest_int[OF assms] Let_def
    by (simp only: if_False)
qed

lemma binary64_zero: "binary64 0 = Finite 0"
  using binary64_int[of 0] by simp

lemma binary64_one: "binary64 1 = Finite 1"
  using binary64_int[of 1] by simp

lemma binary64_numeral:
  assumes "(numeral k :: int) < 2 ^ 53"
  shows "binary64 (numeral k) = Finite (numeral k)"
  using binary64_int[of "numeral k"] assms by simp

lemma binary64_neg_numeral:
  assumes "(numeral k :: int) < 2 ^ 53"
  shows "binary64 (- numeral k) = Finite (- numeral k)"
  using binary64_int[of "- numeral k"] assms by simp

lemma binary64_of_nearest:
  assumes "\<not> 2 ^ 1024 \<le> binary64_nearest x" and "\<not> binary64_nearest x \<le> - (2 ^ 1024)"
  shows "binary64 x = Finite (binary64_nearest x)"
  unfolding binary64_def Let_def using assms by (simp only: if_False)



lemma binary64_bounded:
  assumes "0 \<le> x" and "x \<le> 2 ^ n" and "n < 1024"
  shows "\<exists>v. binary64 x = Finite v \<and> 0 \<le> v \<and> v \<le> 2 ^ n"
proof -
  have u: "binary64_nearest x \<le> 2 ^ n"
    using binary64_nearest_mono[OF assms(1,2)] unfolding binary64_nearest_power .
  have l: "0 \<le> binary64_nearest x" using assms(1) by (rule binary64_nearest_nonneg)
  have a: "(2::real) ^ n < 2 ^ 1024" by (rule power_strict_increasing) (use assms in simp_all)
  have "(0::real) < 2 ^ 1024" by (rule zero_less_power) simp
  with a u l have "\<not> 2 ^ 1024 \<le> binary64_nearest x" "\<not> binary64_nearest x \<le> - (2 ^ 1024)"
    by linarith+
  then have "binary64 x = Finite (binary64_nearest x)" by (rule binary64_of_nearest)
  with u l show ?thesis by blast
qed

lemma binary64_below_inf:
  assumes "0 \<le> x" and "x \<le> 2 ^ n" and "n < 1024"
  shows "flt (binary64 x) PosInf"
proof -
  from binary64_bounded[OF assms] obtain v where "binary64 x = Finite v" by blast
  then show ?thesis by simp
qed

lemma binary64_mono:
  assumes "0 \<le> x" and "x \<le> y"
  shows "\<not> flt (binary64 y) (binary64 x)"
proof -
  have m: "binary64_nearest x \<le> binary64_nearest y" using assms by (rule binary64_nearest_mono)
  have n: "0 \<le> binary64_nearest x" using assms(1) by (rule binary64_nearest_nonneg)
  have p: "(0::real) < 2 ^ 1024" by (rule zero_less_power) simp
  define L :: real where "L = 2 ^ 1024"
  have "0 < L" using p by (simp only: L_def)
  with m n show ?thesis unfolding binary64_def Let_def L_def[symmetric]
    by (auto split: if_splits)
qed

lemma binary64_nearest_just_above_one:
  assumes "1 \<le> x" and "x < 1 + 1 / 2 ^ 53"
  shows "binary64_nearest x = 1"
proof -
  have h: "(1::real) / 2 ^ 53 \<le> 1" by simp
  have "2 powr of_int (- 52 + 52) \<le> \<bar>x\<bar>" "\<bar>x\<bar> < 2 powr of_int (- 52 + 53)"
    using assms h by simp_all
  then have e: "binary64_exponent x = - 52"
    by (rule binary64_exponent_eq) simp
  have q: "(2::real) powr of_int (- 52) = 1 / 2 ^ 52" using powr_int[of 2 "- 52"] by simp
  have "of_int (2 ^ 52) \<le> x * 2 ^ 52" "x * 2 ^ 52 < of_int (2 ^ 52) + 1 / 2"
    using assms by simp_all
  then have "round_half_even (x * 2 ^ 52) = 2 ^ 52" by (rule round_half_even_low)
  then show ?thesis unfolding binary64_nearest_def e q by simp
qed

lemma binary64_just_above_one:
  assumes "1 \<le> x" and "x < 1 + 1 / 2 ^ 53"
  shows "binary64 x = Finite 1"
proof -
  have p: "(1::real) < 2 ^ 1024" by (rule one_less_power) simp_all
  then have "\<not> (2::real) ^ 1024 \<le> 1" "\<not> (1::real) \<le> - (2 ^ 1024)" by linarith+
  then show ?thesis
    using binary64_of_nearest[of x] unfolding binary64_nearest_just_above_one[OF assms] by blast
qed

section \<open>Dictionaries\<close>

lemma dict_get_map_of: "dict_get d k = map_of d k"
  by (induction d) auto

lemma dict_get_in: "dict_get d k = Some v \<Longrightarrow> (k, v) \<in> set d"
  by (simp add: dict_get_map_of map_of_SomeD)

lemma dict_get_keys: "dict_get d k = Some v \<Longrightarrow> k \<in> set (map fst d)"
  by (induction d) (auto split: if_splits)

lemma dict_get_set_same: "dict_get (dict_set d k v) k = Some v"
  by (induction d) auto

lemma dict_get_set_other: "k' \<noteq> k \<Longrightarrow> dict_get (dict_set d k v) k' = dict_get d k'"
  by (induction d) auto

lemma dict_set_new: "k \<notin> fst ` set d \<Longrightarrow> dict_set d k v = d @ [(k, v)]"
  by (induction d) auto

lemma dict_set_old:
  "k \<in> fst ` set d \<Longrightarrow> distinct (map fst d) \<Longrightarrow>
   dict_set d k v = map (\<lambda>p. if fst p = k then (k, v) else p) d"
proof (induction d)
  case Nil then show ?case by simp
next
  case (Cons p d)
  show ?case
  proof (cases "fst p = k")
    case True
    then have "k \<notin> fst ` set d" using Cons.prems(2) by auto
    then have "map (\<lambda>p. if fst p = k then (k, v) else p) d = d"
      by (induction d) auto
    with True show ?thesis by (cases p) simp
  next
    case False
    with Cons show ?thesis by (cases p) auto
  qed
qed

lemma upto_snoc: "1 \<le> n \<Longrightarrow> [1 .. n - 1] @ [n] = [1 .. (n + 1) - 1]"
  using upto_rec2[of 1 n] by simp

lemma fresh_key: "map fst d = [1 .. n - 1] \<Longrightarrow> (n::int) \<notin> fst ` set d"
proof
  assume a: "map fst d = [1 .. n - 1]" and b: "n \<in> fst ` set d"
  from b have "n \<in> set (map fst d)" by simp
  with a show False by simp
qed

lemma strict_upto: "sorted_wrt (<) [i .. j]"
  by (simp add: strict_sorted_iff)

section \<open>The search for the closest driver\<close>

lemma closest_loop_spec:
  "closest_loop h x y as (c, cd) = (c', cd') \<Longrightarrow>
     (c' = c \<and> cd' = cd \<and> (\<forall>b\<in>set as. available (h ! b) \<longrightarrow> \<not> flt (driver_distance h b x y) cd))
   \<or> (\<exists>pre a post. as = pre @ a # post \<and> c' = Some a \<and> cd' = driver_distance h a x y
         \<and> available (h ! a) \<and> flt (driver_distance h a x y) cd
         \<and> (\<forall>b\<in>set pre. available (h ! b) \<longrightarrow> \<not> fle (driver_distance h b x y) (driver_distance h a x y))
         \<and> (\<forall>b\<in>set post. available (h ! b) \<longrightarrow> \<not> flt (driver_distance h b x y) (driver_distance h a x y)))"
proof (induction as arbitrary: c cd)
  case Nil
  then show ?case by simp
next
  case (Cons a1 rest)
  let ?d = "\<lambda>b. driver_distance h b x y"
  show ?case
  proof (cases "available (h ! a1)")
    case False
    with Cons.prems have "closest_loop h x y rest (c, cd) = (c', cd')" by simp
    from Cons.IH[OF this] show ?thesis
    proof (elim disjE exE conjE)
      assume "c' = c" "cd' = cd" "\<forall>b\<in>set rest. available (h ! b) \<longrightarrow> \<not> flt (?d b) cd"
      with False show ?thesis by simp
    next
      fix pre a post
      assume h: "rest = pre @ a # post" "c' = Some a" "cd' = ?d a" "available (h ! a)" "flt (?d a) cd"
        "\<forall>b\<in>set pre. available (h ! b) \<longrightarrow> \<not> fle (?d b) (?d a)"
        "\<forall>b\<in>set post. available (h ! b) \<longrightarrow> \<not> flt (?d b) (?d a)"
      have "a1 # rest = (a1 # pre) @ a # post" using h(1) by simp
      moreover have "\<forall>b\<in>set (a1 # pre). available (h ! b) \<longrightarrow> \<not> fle (?d b) (?d a)"
        using h(6) False by simp
      ultimately show ?thesis using h by blast
    qed
  next
    case True
    show ?thesis
    proof (cases "flt (?d a1) cd")
      case lt: True
      with True Cons.prems have "closest_loop h x y rest (Some a1, ?d a1) = (c', cd')"
        by (simp add: driver_distance_def Let_def)
      from Cons.IH[OF this] show ?thesis
      proof (elim disjE exE conjE)
        assume "c' = Some a1" "cd' = ?d a1" "\<forall>b\<in>set rest. available (h ! b) \<longrightarrow> \<not> flt (?d b) (?d a1)"
        then have "a1 # rest = [] @ a1 # rest \<and> c' = Some a1 \<and> cd' = ?d a1 \<and> available (h ! a1) \<and> flt (?d a1) cd
           \<and> (\<forall>b\<in>set []. available (h ! b) \<longrightarrow> \<not> fle (?d b) (?d a1))
           \<and> (\<forall>b\<in>set rest. available (h ! b) \<longrightarrow> \<not> flt (?d b) (?d a1))"
          using True lt by simp
        then show ?thesis by blast
      next
        fix pre a post
        assume h: "rest = pre @ a # post" "c' = Some a" "cd' = ?d a" "available (h ! a)" "flt (?d a) (?d a1)"
          "\<forall>b\<in>set pre. available (h ! b) \<longrightarrow> \<not> fle (?d b) (?d a)"
          "\<forall>b\<in>set post. available (h ! b) \<longrightarrow> \<not> flt (?d b) (?d a)"
        have "a1 # rest = (a1 # pre) @ a # post" using h(1) by simp
        moreover have "\<forall>b\<in>set (a1 # pre). available (h ! b) \<longrightarrow> \<not> fle (?d b) (?d a)"
          using h(6) flt_not_fle[OF h(5)] by simp
        moreover have "flt (?d a) cd" using flt_trans[OF h(5) lt] .
        ultimately show ?thesis using h by blast
      qed
    next
      case nlt: False
      with True Cons.prems have "closest_loop h x y rest (c, cd) = (c', cd')"
        by (simp add: driver_distance_def Let_def)
      from Cons.IH[OF this] show ?thesis
      proof (elim disjE exE conjE)
        assume "c' = c" "cd' = cd" "\<forall>b\<in>set rest. available (h ! b) \<longrightarrow> \<not> flt (?d b) cd"
        with nlt show ?thesis by simp
      next
        fix pre a post
        assume h: "rest = pre @ a # post" "c' = Some a" "cd' = ?d a" "available (h ! a)" "flt (?d a) cd"
          "\<forall>b\<in>set pre. available (h ! b) \<longrightarrow> \<not> fle (?d b) (?d a)"
          "\<forall>b\<in>set post. available (h ! b) \<longrightarrow> \<not> flt (?d b) (?d a)"
        have "a1 # rest = (a1 # pre) @ a # post" using h(1) by simp
        moreover have "\<not> fle (?d a1) (?d a)" using nlt fle_flt_trans[OF _ h(5)] by blast
        then have "\<forall>b\<in>set (a1 # pre). available (h ! b) \<longrightarrow> \<not> fle (?d b) (?d a)"
          using h(6) by simp
        ultimately show ?thesis using h by blast
      qed
    qed
  qed
qed

lemma find_closest_Some:
  assumes "find_closest_driver s x y = Some a"
  shows "\<exists>pre post. dict_values (drivers s) = pre @ a # post
         \<and> available (heap s ! a) \<and> flt (driver_distance (heap s) a x y) PosInf
         \<and> (\<forall>b\<in>set pre. available (heap s ! b) \<longrightarrow>
               \<not> fle (driver_distance (heap s) b x y) (driver_distance (heap s) a x y))
         \<and> (\<forall>b\<in>set post. available (heap s ! b) \<longrightarrow>
               \<not> flt (driver_distance (heap s) b x y) (driver_distance (heap s) a x y))"
proof -
  obtain c' cd' where r: "closest_loop (heap s) x y (dict_values (drivers s)) (None, PosInf) = (c', cd')"
    by (cases "closest_loop (heap s) x y (dict_values (drivers s)) (None, PosInf)")
  with assms have c: "c' = Some a" by (simp add: find_closest_driver_def)
  from closest_loop_spec[OF r] c show ?thesis by auto
qed




section \<open>The methods, path by path\<close>

lemma register_rider_eq:
  "register_rider s name =
     (\<lparr>r_id = next_rider_id s, r_name = name\<rparr>, [RegisteredRider name (next_rider_id s)],
      s\<lparr>riders := dict_set (riders s) (next_rider_id s) \<lparr>r_id = next_rider_id s, r_name = name\<rparr>,
        next_rider_id := next_rider_id s + 1\<rparr>)"
  by (simp add: register_rider_def Let_def)

lemma register_driver_eq:
  "register_driver s name x y =
     (length (heap s), [RegisteredDriver name (next_driver_id s) x y],
      s\<lparr>heap := heap s @ [\<lparr>d_id = next_driver_id s, d_name = name, d_x = x, d_y = y,
                            available = True\<rparr>],
        drivers := dict_set (drivers s) (next_driver_id s) (length (heap s)),
        next_driver_id := next_driver_id s + 1\<rparr>)"
  by (simp add: register_driver_def Let_def)

lemma request_ride_Some:
  assumes "request_ride s rid sx sy dx dy = (Some ride, out, s')"
  shows "\<exists>r. dict_get (riders s) rid = Some r \<and> rider ride = r"
    and "find_closest_driver s sx sy = Some (driver ride)"
    and "ride_id ride = next_ride_id s"
    and "fare ride = round_float (fadd (Finite 250) (fmul (hypot (fsub dx sx) (fsub dy sy)) (Finite 100))) 2"
    and "s' = s\<lparr>heap := (heap s)[driver ride := (heap s ! driver ride)\<lparr>available := False\<rparr>],
                 rides := dict_set (rides s) (next_ride_id s) ride,
                 next_ride_id := next_ride_id s + 1\<rparr>"
  using assms by (auto simp: request_ride_def Let_def split: option.splits)

lemma request_ride_counters:
  "next_rider_id (snd (snd (request_ride s rid sx sy dx dy))) = next_rider_id s"
  "next_driver_id (snd (snd (request_ride s rid sx sy dx dy))) = next_driver_id s"
  "next_ride_id (snd (snd (request_ride s rid sx sy dx dy))) =
     (if fst (request_ride s rid sx sy dx dy) = None then next_ride_id s else next_ride_id s + 1)"
  by (simp_all add: request_ride_def Let_def split: option.splits)

lemma complete_ride_active:
  assumes "dict_get (rides s) k = Some r" and "\<not> completed r"
  shows "complete_ride s k =
           ((), [RideCompleted (ride_id r) (fare r)],
            s\<lparr>rides := dict_set (rides s) k (r\<lparr>completed := True\<rparr>),
              heap := (heap s)[driver r := (heap s ! driver r)\<lparr>available := True,
                         d_x := dest_x r, d_y := dest_y r\<rparr>]\<rparr>)"
  using assms by (simp add: complete_ride_def Let_def)

lemma complete_ride_counters:
  "next_rider_id (snd (snd (complete_ride s k))) = next_rider_id s"
  "next_driver_id (snd (snd (complete_ride s k))) = next_driver_id s"
  "next_ride_id (snd (snd (complete_ride s k))) = next_ride_id s"
  by (simp_all add: complete_ride_def Let_def split: option.splits)

lemma counters_mono_exec:
  "next_rider_id s \<le> next_rider_id (exec s c)"
  "next_driver_id s \<le> next_driver_id (exec s c)"
  "next_ride_id s \<le> next_ride_id (exec s c)"
  by (cases c; simp add: register_rider_eq register_driver_eq request_ride_counters
      complete_ride_counters list_rides_def)+

lemma counters_mono_run:
  "next_rider_id s \<le> next_rider_id (run s cs) \<and>
   next_driver_id s \<le> next_driver_id (run s cs) \<and>
   next_ride_id s \<le> next_ride_id (run s cs)"
proof (induction cs arbitrary: s)
  case Nil
  show ?case by simp
next
  case (Cons c cs)
  from Cons[of "exec s c"] counters_mono_exec[of s c] show ?case by simp
qed

lemma run_snoc: "run s (cs @ [c]) = exec (run s cs) c"
  by (induction cs arbitrary: s) simp_all

section \<open>The invariant holds in every state of the application\<close>

lemma consistentI:
  assumes "1 \<le> next_rider_id s"
    and "map fst (riders s) = [1 .. next_rider_id s - 1]"
    and "\<And>k r. (k, r) \<in> set (riders s) \<Longrightarrow> r_id r = k"
    and "drivers s = map (\<lambda>i. (int i + 1, i)) [0 ..< length (heap s)]"
    and "next_driver_id s = int (length (heap s)) + 1"
    and "\<And>i. i < length (heap s) \<Longrightarrow> d_id (heap s ! i) = int i + 1"
    and "1 \<le> next_ride_id s"
    and "map fst (rides s) = [1 .. next_ride_id s - 1]"
    and "\<And>k r. (k, r) \<in> set (rides s) \<Longrightarrow> ride_id r = k \<and> driver r < length (heap s) \<and>
         (r_id (rider r), rider r) \<in> set (riders s) \<and>
         (\<not> completed r \<longrightarrow> \<not> available (heap s ! driver r))"
    and "\<And>k1 r1 k2 r2. (k1, r1) \<in> set (rides s) \<Longrightarrow> (k2, r2) \<in> set (rides s) \<Longrightarrow>
         \<not> completed r1 \<Longrightarrow> \<not> completed r2 \<Longrightarrow> driver r1 = driver r2 \<Longrightarrow> k1 = k2"
  shows "consistent s"
  unfolding consistent_def
  apply (intro conjI)
           apply (rule assms(1))
          apply (rule assms(2))
         apply (use assms(3) in blast)
        apply (rule assms(4))
       apply (rule assms(5))
      apply (use assms(6) in blast)
     apply (rule assms(7))
    apply (rule assms(8))
   apply (use assms(9) in blast)
  apply (use assms(10) in blast)
  done

lemma consistent_distinct: "consistent s \<Longrightarrow> distinct (map fst (rides s))"
  by (simp add: consistent_def)

lemma consistent_values: "consistent s \<Longrightarrow> dict_values (drivers s) = [0 ..< length (heap s)]"
  by (simp add: consistent_def dict_values_def comp_def map_idI)

lemma consistent_init: "consistent init"
  by (simp add: consistent_def init_def)

lemma consistent_register_rider:
  assumes "consistent s"
  shows "consistent (snd (snd (register_rider s name)))"
proof -
  have f: "next_rider_id s \<notin> fst ` set (riders s)"
    using assms fresh_key unfolding consistent_def by blast
  have n: "1 \<le> next_rider_id s" using assms unfolding consistent_def by blast
  show ?thesis
    using assms upto_snoc[OF n]
    by (auto simp: consistent_def register_rider_def Let_def dict_set_new[OF f])
qed

lemma consistent_register_driver:
  assumes "consistent s"
  shows "consistent (snd (snd (register_driver s name x y)))"
proof -
  let ?ds = "map (\<lambda>i. (int i + 1, i)) [0 ..< length (heap s)]"
  have "int (length (heap s)) + 1 \<notin> fst ` set ?ds" by auto
  then have e: "dict_set ?ds (int (length (heap s)) + 1) v = ?ds @ [(int (length (heap s)) + 1, v)]" for v
    by (rule dict_set_new)
  show ?thesis
    using assms
    by (auto simp: consistent_def register_driver_def Let_def e nth_append)
qed

lemma consistent_request_ride:
  assumes c: "consistent s"
  shows "consistent (snd (snd (request_ride s rid sx sy dx dy)))"
proof (cases "dict_get (riders s) rid")
  case None
  with c show ?thesis by (simp add: request_ride_def)
next
  case (Some r)
  show ?thesis
  proof (cases "find_closest_driver s sx sy")
    case None
    with c Some show ?thesis by (simp add: request_ride_def)
  next
    case (Some a)
    from find_closest_Some[OF Some] obtain pre post where
      v: "dict_values (drivers s) = pre @ a # post" and av: "available (heap s ! a)" by blast
    have "a \<in> set (dict_values (drivers s))" using v by simp
    then have al: "a < length (heap s)" using consistent_values[OF c] by simp
    have n: "1 \<le> next_ride_id s" using c unfolding consistent_def by blast
    have f: "next_ride_id s \<notin> fst ` set (rides s)"
      using c fresh_key unfolding consistent_def by blast
    have old: "\<not> completed r' \<Longrightarrow> driver r' \<noteq> a" if "(k', r') \<in> set (rides s)" for k' r'
      using c that av unfolding consistent_def by fastforce
    have "(rid, r) \<in> set (riders s)"
      using \<open>dict_get (riders s) rid = Some r\<close> by (rule dict_get_in)
    moreover from this have "r_id r = rid" using c unfolding consistent_def by fastforce
    ultimately have rin: "(r_id r, r) \<in> set (riders s)" by simp
    show ?thesis
      using c \<open>dict_get (riders s) rid = Some r\<close> Some al upto_snoc[OF n] old rin
      by (auto simp: consistent_def request_ride_def Let_def dict_set_new[OF f] nth_list_update)
  qed
qed

lemma consistent_complete_ride:
  assumes c: "consistent s"
  shows "consistent (snd (snd (complete_ride s k)))"
proof (cases "dict_get (rides s) k")
  case None
  with c show ?thesis by (simp add: complete_ride_def)
next
  case (Some ride)
  show ?thesis
  proof (cases "completed ride")
    case True
    with c Some show ?thesis by (simp add: complete_ride_def)
  next
    case False
    have m: "(k, ride) \<in> set (rides s)" using Some by (rule dict_get_in)
    then have kin: "k \<in> fst ` set (rides s)" by force
    let ?f = "\<lambda>p. if fst p = k then (k, ride\<lparr>completed := True\<rparr>) else p"
    have e: "dict_set (rides s) k (ride\<lparr>completed := True\<rparr>) = map ?f (rides s)"
      using dict_set_old[OF kin consistent_distinct[OF c]] .
    have keys: "map fst (map ?f (rides s)) = map fst (rides s)"
      by (induction "rides s") auto
    have other: "driver r' \<noteq> driver ride"
      if "(k', r') \<in> set (rides s)" "k' \<noteq> k" "\<not> completed r'" for k' r'
      using c that m False unfolding consistent_def by fastforce
    have rid: "ride_id ride = k" and dl: "driver ride < length (heap s)"
      and rin: "(r_id (rider ride), rider ride) \<in> set (riders s)"
      using c m unfolding consistent_def by fastforce+
    let ?h = "(heap s)[driver ride := (heap s ! driver ride)\<lparr>available := True,
                 d_x := dest_x ride, d_y := dest_y ride\<rparr>]"
    let ?s = "s\<lparr>rides := map ?f (rides s), heap := ?h\<rparr>"
    have st: "snd (snd (complete_ride s k)) = ?s"
      using Some False by (simp add: complete_ride_def Let_def e)
    have ids: "\<forall>i < length ?h. d_id (?h ! i) = int i + 1"
    proof -
      have "\<forall>i < length (heap s). d_id (heap s ! i) = int i + 1"
        using c unfolding consistent_def by blast
      then show ?thesis using dl by (auto simp: nth_list_update)
    qed
    have r9: "ride_id r' = k' \<and> driver r' < length ?h \<and>
              (r_id (rider r'), rider r') \<in> set (riders s) \<and>
              (\<not> completed r' \<longrightarrow> \<not> available (?h ! driver r'))"
      if "(k', r') \<in> set (map ?f (rides s))" for k' r'
    proof -
      from that obtain p where p: "p \<in> set (rides s)" "(k', r') = ?f p" by auto
      show ?thesis
      proof (cases "fst p = k")
        case True
        with p have "k' = k" "r' = ride\<lparr>completed := True\<rparr>" by auto
        then show ?thesis using rid dl rin by simp
      next
        case False
        with p have q: "(k', r') \<in> set (rides s)" "k' \<noteq> k" by auto
        then have "ride_id r' = k'" "driver r' < length (heap s)"
          "(r_id (rider r'), rider r') \<in> set (riders s)"
          "\<not> completed r' \<longrightarrow> \<not> available (heap s ! driver r')"
          using c unfolding consistent_def by fastforce+
        moreover have "\<not> completed r' \<longrightarrow> driver r' \<noteq> driver ride"
          using other[OF q] by blast
        ultimately show ?thesis using dl by (auto simp: nth_list_update)
      qed
    qed
    have r10: "k1 = k2"
      if "(k1, r1) \<in> set (map ?f (rides s))" "(k2, r2) \<in> set (map ?f (rides s))"
        "\<not> completed r1" "\<not> completed r2" "driver r1 = driver r2" for k1 r1 k2 r2
    proof -
      have act: "(k', r') \<in> set (rides s)"
        if "(k', r') \<in> set (map ?f (rides s))" "\<not> completed r'" for k' r'
      proof -
        from that obtain p where p: "p \<in> set (rides s)" "(k', r') = ?f p" by auto
        then show ?thesis using that(2) by (cases "fst p = k") auto
      qed
      from act[OF that(1,3)] act[OF that(2,4)] that(3,4,5) c show ?thesis
        unfolding consistent_def by fastforce
    qed
    have sel: "rides ?s = map ?f (rides s)" "heap ?s = ?h" "riders ?s = riders s"
      "drivers ?s = drivers s" "next_rider_id ?s = next_rider_id s"
      "next_driver_id ?s = next_driver_id s" "next_ride_id ?s = next_ride_id s"
      by simp_all
    have len: "length ?h = length (heap s)" by simp
    have "consistent ?s"
    proof (rule consistentI; (unfold sel)?)
      show "\<And>k r. (k, r) \<in> set (map ?f (rides s)) \<Longrightarrow> ride_id r = k \<and> driver r < length ?h \<and>
              (r_id (rider r), rider r) \<in> set (riders s) \<and>
              (\<not> completed r \<longrightarrow> \<not> available (?h ! driver r))"
        by (rule r9)
      show "\<And>k1 r1 k2 r2. (k1, r1) \<in> set (map ?f (rides s)) \<Longrightarrow> (k2, r2) \<in> set (map ?f (rides s)) \<Longrightarrow>
              \<not> completed r1 \<Longrightarrow> \<not> completed r2 \<Longrightarrow> driver r1 = driver r2 \<Longrightarrow> k1 = k2"
        by (rule r10)
      show "\<And>i. i < length ?h \<Longrightarrow> d_id (?h ! i) = int i + 1"
        using ids by blast
      show "map fst (map ?f (rides s)) = [1..next_ride_id s - 1]"
        using c unfolding keys consistent_def by blast
      show "1 \<le> next_rider_id s" "map fst (riders s) = [1 .. next_rider_id s - 1]"
        "\<And>k r. (k, r) \<in> set (riders s) \<Longrightarrow> r_id r = k" "1 \<le> next_ride_id s"
        using c unfolding consistent_def by blast+
      show "drivers s = map (\<lambda>i. (int i + 1, i)) [0 ..< length ?h]"
        "next_driver_id s = int (length ?h) + 1"
        using c unfolding len consistent_def by blast+
    qed
    then show ?thesis by (simp only: st)
  qed
qed

lemma consistent_exec: "consistent s \<Longrightarrow> consistent (exec s c)"
  by (cases c) (simp_all add: consistent_register_rider consistent_register_driver
      consistent_request_ride consistent_complete_ride list_rides_def)

lemma consistent_run: "consistent s \<Longrightarrow> consistent (run s cs)"
  by (induction cs arbitrary: s) (simp_all add: consistent_exec)

lemma consistent_reachable: "consistent (run init cs)"
  by (rule consistent_run[OF consistent_init])

lemma consistent_ride:
  assumes "consistent s" and "dict_get (rides s) k = Some r"
  shows "ride_id r = k" and "driver r < length (heap s)"
  using assms(1) dict_get_in[OF assms(2)] unfolding consistent_def by fastforce+

lemma consistent_driver_key:
  assumes "consistent s" and "a < length (heap s)"
  shows "dict_get (drivers s) (d_id (heap s ! a)) = Some a"
proof -
  have ds: "drivers s = map (\<lambda>i. (int i + 1, i)) [0 ..< length (heap s)]"
    and ids: "d_id (heap s ! a) = int a + 1"
    using assms unfolding consistent_def by blast+
  have "distinct (map fst (drivers s))"
    unfolding ds by (simp add: distinct_map inj_on_def comp_def)
  moreover have "(int a + 1, a) \<in> set (drivers s)" unfolding ds using assms(2) by auto
  ultimately show ?thesis unfolding ids dict_get_map_of by simp
qed

lemma consistent_ids:
  assumes c: "consistent s"
  shows "map fst (riders s) = [1 .. next_rider_id s - 1]"
    and "map (\<lambda>(k, r). r_id r) (riders s) = [1 .. next_rider_id s - 1]"
    and "map fst (drivers s) = [1 .. next_driver_id s - 1]"
    and "map (\<lambda>(k, a). d_id (heap s ! a)) (drivers s) = [1 .. next_driver_id s - 1]"
    and "map fst (rides s) = [1 .. next_ride_id s - 1]"
    and "map (\<lambda>(k, r). ride_id r) (rides s) = [1 .. next_ride_id s - 1]"
proof -
  show 1: "map fst (riders s) = [1 .. next_rider_id s - 1]"
    and 5: "map fst (rides s) = [1 .. next_ride_id s - 1]"
    using c unfolding consistent_def by blast+
  have "\<forall>(k, r) \<in> set (riders s). r_id r = k" using c unfolding consistent_def by blast
  then have "map (\<lambda>(k, r). r_id r) (riders s) = map fst (riders s)"
    by (intro map_cong) auto
  with 1 show "map (\<lambda>(k, r). r_id r) (riders s) = [1 .. next_rider_id s - 1]" by simp
  have "\<forall>(k, r) \<in> set (rides s). ride_id r = k" using c unfolding consistent_def by fastforce
  then have "map (\<lambda>(k, r). ride_id r) (rides s) = map fst (rides s)"
    by (intro map_cong) auto
  with 5 show "map (\<lambda>(k, r). ride_id r) (rides s) = [1 .. next_ride_id s - 1]" by simp
  have ds: "drivers s = map (\<lambda>i. (int i + 1, i)) [0 ..< length (heap s)]"
    and n: "next_driver_id s = int (length (heap s)) + 1"
    and ids: "\<forall>i < length (heap s). d_id (heap s ! i) = int i + 1"
    using c unfolding consistent_def by blast+
  have u: "map (\<lambda>i. int i + 1) [0 ..< m] = [1 .. int m]" for m
  proof (induction m)
    case 0 show ?case by simp
  next
    case (Suc m)
    have "[1 .. int (Suc m)] = [1 .. int m] @ [int m + 1]"
      using upto_rec2[of 1 "int m + 1"] by (simp add: add.commute)
    with Suc show ?case by simp
  qed
  show 3: "map fst (drivers s) = [1 .. next_driver_id s - 1]"
    unfolding ds n using u[of "length (heap s)"] by (simp add: comp_def)
  have "map (\<lambda>(k, a). d_id (heap s ! a)) (drivers s) = map fst (drivers s)"
    unfolding ds using ids by (simp add: comp_def)
  with 3 show "map (\<lambda>(k, a). d_id (heap s ! a)) (drivers s) = [1 .. next_driver_id s - 1]"
    by simp
qed

section \<open>Stored rides\<close>

text \<open>
  A step of the application leaves a stored ride as it is, or sets its flag
  \<open>completed\<close>: no other field of a ride ever changes, and a completed ride never
  changes again.
\<close>

lemma ride_stable_exec:
  assumes c: "consistent s" and g: "dict_get (rides s) k = Some r"
  shows "dict_get (rides (exec s c')) k = Some r \<or>
         (\<not> completed r \<and> dict_get (rides (exec s c')) k = Some (r\<lparr>completed := True\<rparr>))"
proof (cases c')
  case (RegisterRider name)
  with g show ?thesis by (simp add: register_rider_def Let_def)
next
  case (RegisterDriver name x y)
  with g show ?thesis by (simp add: register_driver_def Let_def)
next
  case (RequestRide rid sx sy dx dy)
  have "k \<in> set (map fst (rides s))" using g by (rule dict_get_keys)
  moreover have "map fst (rides s) = [1 .. next_ride_id s - 1]"
    using c unfolding consistent_def by blast
  ultimately have "k \<noteq> next_ride_id s" by auto
  then have "dict_get (dict_set (rides s) (next_ride_id s) v) k = Some r" for v
    using g by (simp add: dict_get_set_other)
  then have "dict_get (rides (snd (snd (request_ride s rid sx sy dx dy)))) k = Some r"
    using g by (simp add: request_ride_def Let_def split: option.splits)
  with RequestRide show ?thesis by simp
next
  case (CompleteRide j)
  show ?thesis
  proof (cases "j = k")
    case True
    have "dict_get (rides (snd (snd (complete_ride s k)))) k =
            (if completed r then Some r else Some (r\<lparr>completed := True\<rparr>))"
      using g by (simp add: complete_ride_def Let_def dict_get_set_same)
    with CompleteRide True show ?thesis by simp
  next
    case False
    then have "dict_get (dict_set (rides s) j v) k = Some r" for v
      using g by (simp add: dict_get_set_other)
    then have "dict_get (rides (snd (snd (complete_ride s j)))) k = Some r"
      using g by (simp add: complete_ride_def Let_def split: option.splits)
    with CompleteRide show ?thesis by simp
  qed
next
  case ListRides
  with g show ?thesis by (simp add: list_rides_def)
qed

lemma ride_stable_run:
  assumes "consistent s" and "dict_get (rides s) k = Some r"
  shows "dict_get (rides (run s cs)) k = Some r \<or>
         (\<not> completed r \<and> dict_get (rides (run s cs)) k = Some (r\<lparr>completed := True\<rparr>))"
  using assms
proof (induction cs arbitrary: s r)
  case Nil
  then show ?case by simp
next
  case (Cons c' cs)
  note c1 = consistent_exec[OF Cons.prems(1), of c']
  from ride_stable_exec[OF Cons.prems, of c'] show ?case
  proof
    assume a: "dict_get (rides (exec s c')) k = Some r"
    from Cons.IH[OF c1 a] show ?thesis by simp
  next
    assume a: "\<not> completed r \<and> dict_get (rides (exec s c')) k = Some (r\<lparr>completed := True\<rparr>)"
    then have b: "dict_get (rides (exec s c')) k = Some (r\<lparr>completed := True\<rparr>)" by blast
    from Cons.IH[OF c1 b] a show ?thesis by simp
  qed
qed

lemma completed_ride_fixed:
  assumes "consistent s" and "dict_get (rides s) k = Some r" and "completed r"
  shows "dict_get (rides (run s cs)) k = Some r"
  using ride_stable_run[OF assms(1,2), of cs] assms(3) by blast

section \<open>Floats at the values of the small runs\<close>

lemma binary64_minus_one: "binary64 (- 1) = Finite (- 1)"
  using binary64_int[of "- 1"] by simp

lemma round_half_even_numeral: "round_half_even (numeral k) = numeral k"
  using round_half_even_int[of "numeral k"] by simp

lemmas float_eval =
  fsub_def binary64_zero binary64_one binary64_minus_one binary64_numeral binary64_neg_numeral
  round_half_even_numeral flt_irrefl

lemma sqrt_2_below_inf: "flt (binary64 (sqrt 2)) PosInf"
proof -
  have "sqrt 2 \<le> 2" by (rule real_le_lsqrt) simp_all
  moreover have "0 \<le> sqrt 2" by simp
  ultimately show ?thesis using binary64_below_inf[of "sqrt 2" 1] by simp
qed

lemma sqrt_162_below_inf: "flt (binary64 (sqrt 162)) PosInf"
proof -
  have "sqrt 162 \<le> 16" by (rule real_le_lsqrt) simp_all
  moreover have "0 \<le> sqrt 162" by simp
  ultimately show ?thesis using binary64_below_inf[of "sqrt 162" 4] by simp
qed

lemma sqrt_162_not_closer: "\<not> flt (binary64 (sqrt 162)) (binary64 (sqrt 2))"
  by (rule binary64_mono) simp_all

lemma binary64_not_below_zero: "0 \<le> y \<Longrightarrow> \<not> flt (binary64 y) (Finite 0)"
  using binary64_mono[of 0 y] by (simp add: binary64_zero)

lemmas distance_eval =
  sqrt_2_below_inf sqrt_162_below_inf sqrt_162_not_closer binary64_not_below_zero

lemma binary64_inverse_power:
  assumes "n \<le> 1022"
  shows "binary64 (1 / 2 ^ n) = Finite (1 / 2 ^ n)"
proof -
  have a: "(1::real) / 2 ^ n \<le> 1" "(0::real) < 1 / 2 ^ n" by simp_all
  have "(1::real) < 2 ^ 1024" by (rule one_less_power) simp_all
  with a have "\<not> (2::real) ^ 1024 \<le> 1 / 2 ^ n" "\<not> (1::real) / 2 ^ n \<le> - (2 ^ 1024)" by linarith+
  then show ?thesis
    using binary64_of_nearest[of "1 / 2 ^ n"] unfolding binary64_nearest_inverse_power[OF assms]
    by blast
qed

lemma tiny_pos: "0 \<le> tiny"
  by (simp add: tiny_def)

lemma binary64_tiny: "binary64 tiny = Finite tiny"
  unfolding tiny_def by (rule binary64_inverse_power) simp

lemma hypot_one_tiny: "binary64 (sqrt (1 + tiny\<^sup>2)) = Finite 1"
proof (rule binary64_just_above_one)
  show "1 \<le> sqrt (1 + tiny\<^sup>2)" by simp
  have "1 + tiny\<^sup>2 < (1 + 1 / 2 ^ 53)\<^sup>2"
    by (simp add: tiny_def power2_eq_square field_simps)
  then show "sqrt (1 + tiny\<^sup>2) < 1 + 1 / 2 ^ 53"
    by (intro real_less_lsqrt) simp_all
qed






lemma half_range_pos: "0 \<le> half_range"
  unfolding half_range_def by (rule zero_le_power) simp



section \<open>The small runs, evaluated\<close>

lemma demo_rider_only:
  "demo_rider_only =
     \<lparr>riders = [(1, \<lparr>r_id = 1, r_name = ''ann''\<rparr>)], drivers = [], rides = [],
      next_rider_id = 2, next_driver_id = 1, next_ride_id = 1, heap = []\<rparr>"
  by (simp add: demo_rider_only_def init_def register_rider_def Let_def)

lemma demo_ride_done:
  "demo_ride_done =
     \<lparr>riders = [(1, \<lparr>r_id = 1, r_name = ''ann''\<rparr>)], drivers = [(1, 0)],
      rides = [(1, \<lparr>ride_id = 1, rider = \<lparr>r_id = 1, r_name = ''ann''\<rparr>, driver = 0,
                     start_x = Finite 0, start_y = Finite 0, dest_x = Finite 1, dest_y = Finite 0,
                     fare = Finite 350, completed = True\<rparr>)],
      next_rider_id = 2, next_driver_id = 2, next_ride_id = 2,
      heap = [\<lparr>d_id = 1, d_name = ''bob'', d_x = Finite 1, d_y = Finite 0, available = True\<rparr>]\<rparr>"
  by (simp add: demo_ride_done_def init_def register_rider_def register_driver_def request_ride_def
      complete_ride_def find_closest_driver_def dict_values_def float_eval Let_def)

lemma demo_two_drivers:
  "demo_two_drivers =
     \<lparr>riders = [(1, \<lparr>r_id = 1, r_name = ''ann''\<rparr>)], drivers = [(1, 0), (2, 1)], rides = [],
      next_rider_id = 2, next_driver_id = 3, next_ride_id = 1,
      heap = [\<lparr>d_id = 1, d_name = ''bob'', d_x = Finite 0, d_y = Finite 0, available = True\<rparr>,
              \<lparr>d_id = 2, d_name = ''cy'', d_x = Finite 10, d_y = Finite 10, available = True\<rparr>]\<rparr>"
  by (simp add: demo_two_drivers_def init_def register_rider_def register_driver_def Let_def)

lemma demo_two_drivers_request:
  "request_ride demo_two_drivers 1 (Finite 1) (Finite 1) (Finite 2) (Finite 1) =
     (Some \<lparr>ride_id = 1, rider = \<lparr>r_id = 1, r_name = ''ann''\<rparr>, driver = 0,
            start_x = Finite 1, start_y = Finite 1, dest_x = Finite 2, dest_y = Finite 1,
            fare = Finite 350, completed = False\<rparr>,
      [RideStarted 1 ''bob'' (Finite 350)],
      demo_two_drivers\<lparr>
        heap := [\<lparr>d_id = 1, d_name = ''bob'', d_x = Finite 0, d_y = Finite 0, available = False\<rparr>,
                 \<lparr>d_id = 2, d_name = ''cy'', d_x = Finite 10, d_y = Finite 10, available = True\<rparr>],
        rides := [(1, \<lparr>ride_id = 1, rider = \<lparr>r_id = 1, r_name = ''ann''\<rparr>, driver = 0,
            start_x = Finite 1, start_y = Finite 1, dest_x = Finite 2, dest_y = Finite 1,
            fare = Finite 350, completed = False\<rparr>)],
        next_ride_id := 2\<rparr>)"
  unfolding demo_two_drivers
  by (simp add: request_ride_def find_closest_driver_def dict_values_def float_eval
      distance_eval Let_def)


lemma demo_active:
  "demo_active =
     \<lparr>riders = [(1, \<lparr>r_id = 1, r_name = ''ann''\<rparr>)], drivers = [(1, 0), (2, 1)],
      rides = [(1, \<lparr>ride_id = 1, rider = \<lparr>r_id = 1, r_name = ''ann''\<rparr>, driver = 0,
            start_x = Finite 1, start_y = Finite 1, dest_x = Finite 2, dest_y = Finite 1,
            fare = Finite 350, completed = False\<rparr>)],
      next_rider_id = 2, next_driver_id = 3, next_ride_id = 2,
      heap = [\<lparr>d_id = 1, d_name = ''bob'', d_x = Finite 0, d_y = Finite 0, available = False\<rparr>,
              \<lparr>d_id = 2, d_name = ''cy'', d_x = Finite 10, d_y = Finite 10, available = True\<rparr>]\<rparr>"
proof -
  have "demo_active = snd (snd (request_ride demo_two_drivers 1 (Finite 1) (Finite 1) (Finite 2) (Finite 1)))"
    by (simp add: demo_active_def demo_two_drivers_def)
  then show ?thesis unfolding demo_two_drivers_request by (simp add: demo_two_drivers)
qed

lemma demo_active_ride:
  "dict_get (rides demo_active) 1 =
     Some \<lparr>ride_id = 1, rider = \<lparr>r_id = 1, r_name = ''ann''\<rparr>, driver = 0,
            start_x = Finite 1, start_y = Finite 1, dest_x = Finite 2, dest_y = Finite 1,
            fare = Finite 350, completed = False\<rparr>"
  unfolding demo_active by simp

lemma demo_active_request:
  "request_ride demo_active 1 (Finite 1) (Finite 1) (Finite 2) (Finite 1) =
     (Some \<lparr>ride_id = 2, rider = \<lparr>r_id = 1, r_name = ''ann''\<rparr>, driver = 1,
            start_x = Finite 1, start_y = Finite 1, dest_x = Finite 2, dest_y = Finite 1,
            fare = Finite 350, completed = False\<rparr>,
      [RideStarted 2 ''cy'' (Finite 350)],
      demo_active\<lparr>
        heap := [\<lparr>d_id = 1, d_name = ''bob'', d_x = Finite 0, d_y = Finite 0, available = False\<rparr>,
                 \<lparr>d_id = 2, d_name = ''cy'', d_x = Finite 10, d_y = Finite 10, available = False\<rparr>],
        rides := [(1, \<lparr>ride_id = 1, rider = \<lparr>r_id = 1, r_name = ''ann''\<rparr>, driver = 0,
            start_x = Finite 1, start_y = Finite 1, dest_x = Finite 2, dest_y = Finite 1,
            fare = Finite 350, completed = False\<rparr>),
                  (2, \<lparr>ride_id = 2, rider = \<lparr>r_id = 1, r_name = ''ann''\<rparr>, driver = 1,
            start_x = Finite 1, start_y = Finite 1, dest_x = Finite 2, dest_y = Finite 1,
            fare = Finite 350, completed = False\<rparr>)],
        next_ride_id := 3\<rparr>)"
  unfolding demo_active
  by (simp add: request_ride_def find_closest_driver_def dict_values_def float_eval
      distance_eval Let_def)

lemma demo_two_rides:
  "demo_two_rides =
     \<lparr>riders = [(1, \<lparr>r_id = 1, r_name = ''ann''\<rparr>)], drivers = [(1, 0), (2, 1)],
      rides = [(1, \<lparr>ride_id = 1, rider = \<lparr>r_id = 1, r_name = ''ann''\<rparr>, driver = 0,
            start_x = Finite 1, start_y = Finite 1, dest_x = Finite 2, dest_y = Finite 1,
            fare = Finite 350, completed = False\<rparr>),
               (2, \<lparr>ride_id = 2, rider = \<lparr>r_id = 1, r_name = ''ann''\<rparr>, driver = 1,
            start_x = Finite 1, start_y = Finite 1, dest_x = Finite 2, dest_y = Finite 1,
            fare = Finite 350, completed = False\<rparr>)],
      next_rider_id = 2, next_driver_id = 3, next_ride_id = 3,
      heap = [\<lparr>d_id = 1, d_name = ''bob'', d_x = Finite 0, d_y = Finite 0, available = False\<rparr>,
              \<lparr>d_id = 2, d_name = ''cy'', d_x = Finite 10, d_y = Finite 10, available = False\<rparr>]\<rparr>"
proof -
  have "demo_two_rides = exec demo_active (RequestRide 1 (Finite 1) (Finite 1) (Finite 2) (Finite 1))"
    unfolding demo_two_rides_def demo_active_def
    using run_snoc[of init "[RegisterRider ''ann'', RegisterDriver ''bob'' (Finite 0) (Finite 0),
               RegisterDriver ''cy'' (Finite 10) (Finite 10),
               RequestRide 1 (Finite 1) (Finite 1) (Finite 2) (Finite 1)]"] by simp
  then show ?thesis by (simp add: demo_active_request) (simp add: demo_active)
qed

lemma demo_mixed:
  "demo_mixed =
     \<lparr>riders = [(1, \<lparr>r_id = 1, r_name = ''ann''\<rparr>)], drivers = [(1, 0), (2, 1)],
      rides = [(1, \<lparr>ride_id = 1, rider = \<lparr>r_id = 1, r_name = ''ann''\<rparr>, driver = 0,
            start_x = Finite 1, start_y = Finite 1, dest_x = Finite 2, dest_y = Finite 1,
            fare = Finite 350, completed = True\<rparr>),
               (2, \<lparr>ride_id = 2, rider = \<lparr>r_id = 1, r_name = ''ann''\<rparr>, driver = 1,
            start_x = Finite 1, start_y = Finite 1, dest_x = Finite 2, dest_y = Finite 1,
            fare = Finite 350, completed = False\<rparr>)],
      next_rider_id = 2, next_driver_id = 3, next_ride_id = 3,
      heap = [\<lparr>d_id = 1, d_name = ''bob'', d_x = Finite 2, d_y = Finite 1, available = True\<rparr>,
              \<lparr>d_id = 2, d_name = ''cy'', d_x = Finite 10, d_y = Finite 10, available = False\<rparr>]\<rparr>"
proof -
  have "demo_mixed = exec demo_two_rides (CompleteRide 1)"
    unfolding demo_mixed_def demo_two_rides_def
    using run_snoc[of init "[RegisterRider ''ann'', RegisterDriver ''bob'' (Finite 0) (Finite 0),
               RegisterDriver ''cy'' (Finite 10) (Finite 10),
               RequestRide 1 (Finite 1) (Finite 1) (Finite 2) (Finite 1),
               RequestRide 1 (Finite 1) (Finite 1) (Finite 2) (Finite 1)]"] by simp
  then show ?thesis unfolding demo_two_rides by (simp add: complete_ride_def Let_def)
qed

text \<open>Two available drivers at the same distance: the one registered first is chosen.\<close>

lemma demo_tie_request:
  "driver_distance (heap demo_tie) 0 (Finite 1) (Finite 1) =
     driver_distance (heap demo_tie) 1 (Finite 1) (Finite 1) \<and>
   map_option driver (fst (request_ride demo_tie 1 (Finite 1) (Finite 1) (Finite 2) (Finite 1))) =
     Some 0"
  by (simp add: demo_tie_def init_def register_rider_def register_driver_def request_ride_def
      find_closest_driver_def dict_values_def driver_distance_def float_eval distance_eval Let_def)

lemma demo_near:
  "demo_near =
     \<lparr>riders = [(1, \<lparr>r_id = 1, r_name = ''ann''\<rparr>)], drivers = [(1, 0), (2, 1)], rides = [],
      next_rider_id = 2, next_driver_id = 3, next_ride_id = 1,
      heap = [\<lparr>d_id = 1, d_name = ''bob'', d_x = Finite 1, d_y = Finite tiny, available = True\<rparr>,
              \<lparr>d_id = 2, d_name = ''cy'', d_x = Finite 1, d_y = Finite 0, available = True\<rparr>]\<rparr>"
  by (simp add: demo_near_def init_def register_rider_def register_driver_def Let_def)

lemma demo_near_distances:
  "driver_distance (heap demo_near) 0 (Finite 0) (Finite 0) = Finite 1"
  "driver_distance (heap demo_near) 1 (Finite 0) (Finite 0) = Finite 1"
  unfolding demo_near
  by (simp_all add: driver_distance_def float_eval binary64_tiny hypot_one_tiny)





section \<open>The nearest available driver\<close>




section \<open>A driver serves one active ride at a time\<close>

text \<open>
  C2. In every state of the application the driver of a ride that is not completed is
  unavailable, and two rides that are not completed never refer to the same driver. So
  a call of \<open>request_ride\<close> that succeeds never assigns the driver of a ride that is
  still active.
\<close>

theorem driver_exclusive:
  "(\<forall>(k, r) \<in> set (rides (run init cs)).
      \<not> completed r \<longrightarrow> \<not> available (heap (run init cs) ! driver r)) \<and>
   (\<forall>(k1, r1) \<in> set (rides (run init cs)). \<forall>(k2, r2) \<in> set (rides (run init cs)).
      \<not> completed r1 \<and> \<not> completed r2 \<and> driver r1 = driver r2 \<longrightarrow> k1 = k2) \<and>
   (\<forall>ride. fst (request_ride (run init cs) rid sx sy dx dy) = Some ride \<longrightarrow>
      (\<forall>(k, r) \<in> set (rides (run init cs)). \<not> completed r \<longrightarrow> driver r \<noteq> driver ride))"
proof -
  let ?s = "run init cs"
  have c: "consistent ?s" by (rule consistent_reachable)
  have 1: "\<forall>(k, r) \<in> set (rides ?s). \<not> completed r \<longrightarrow> \<not> available (heap ?s ! driver r)"
    using c unfolding consistent_def by fastforce
  have 2: "\<forall>(k1, r1) \<in> set (rides ?s). \<forall>(k2, r2) \<in> set (rides ?s).
      \<not> completed r1 \<and> \<not> completed r2 \<and> driver r1 = driver r2 \<longrightarrow> k1 = k2"
    using c unfolding consistent_def by blast
  have 3: "\<forall>(k, r) \<in> set (rides ?s). \<not> completed r \<longrightarrow> driver r \<noteq> driver ride"
    if "fst (request_ride ?s rid sx sy dx dy) = Some ride" for ride
  proof -
    have "request_ride ?s rid sx sy dx dy =
            (Some ride, fst (snd (request_ride ?s rid sx sy dx dy)),
             snd (snd (request_ride ?s rid sx sy dx dy)))"
      using that by (metis prod.collapse)
    from find_closest_Some[OF request_ride_Some(2)[OF this]]
    have "available (heap ?s ! driver ride)" by blast
    with 1 show ?thesis by auto
  qed
  from 1 2 3 show ?thesis by blast
qed

theorem driver_exclusive_witness:
  "(1, \<lparr>ride_id = 1, rider = \<lparr>r_id = 1, r_name = ''ann''\<rparr>, driver = 0,
        start_x = Finite 1, start_y = Finite 1, dest_x = Finite 2, dest_y = Finite 1,
        fare = Finite 350, completed = False\<rparr>) \<in> set (rides demo_active) \<and>
   \<not> available (heap demo_active ! 0) \<and>
   fst (request_ride demo_active 1 (Finite 1) (Finite 1) (Finite 2) (Finite 1)) =
     Some \<lparr>ride_id = 2, rider = \<lparr>r_id = 1, r_name = ''ann''\<rparr>, driver = 1,
            start_x = Finite 1, start_y = Finite 1, dest_x = Finite 2, dest_y = Finite 1,
            fare = Finite 350, completed = False\<rparr>"
proof -
  let ?r1 = "\<lparr>ride_id = 1, rider = \<lparr>r_id = 1, r_name = ''ann''\<rparr>, driver = 0,
        start_x = Finite 1, start_y = Finite 1, dest_x = Finite 2, dest_y = Finite 1,
        fare = Finite 350, completed = False\<rparr>"
  have m: "(1, ?r1) \<in> set (rides demo_active)" unfolding demo_active by simp
  have "\<not> completed ?r1 \<longrightarrow> \<not> available (heap demo_active ! driver ?r1)"
    using driver_exclusive[where cs = "[RegisterRider ''ann'', RegisterDriver ''bob'' (Finite 0) (Finite 0),
               RegisterDriver ''cy'' (Finite 10) (Finite 10),
               RequestRide 1 (Finite 1) (Finite 1) (Finite 2) (Finite 1)]",
        folded demo_active_def, THEN conjunct1, THEN bspec, OF m]
    by simp
  then have "\<not> available (heap demo_active ! 0)" by simp
  with m show ?thesis by (simp add: demo_active_request)
qed

section \<open>The fare\<close>




section \<open>How failures are reported\<close>

text \<open>
  C4, as the code has it. No method raises: each of the four failures prints its own
  message and returns \<^verbatim>\<open>None\<close>, and the four messages differ from each other and
  from the messages of success. The value returned does not tell the failures apart:
  \<open>request_ride\<close> returns \<^verbatim>\<open>None\<close> for an unknown rider and for a search
  without result alike, and a ride when it succeeds; \<open>complete_ride\<close> returns
  \<^verbatim>\<open>None\<close> on every path.
\<close>

theorem failures_reported_by_message:
  "(dict_get (riders s) rid = None \<longrightarrow>
      request_ride s rid sx sy dx dy = (None, [RiderNotFound], s)) \<and>
   (dict_get (riders s) rid \<noteq> None \<and> find_closest_driver s sx sy = None \<longrightarrow>
      request_ride s rid sx sy dx dy = (None, [NoAvailableDrivers], s)) \<and>
   (dict_get (riders s) rid \<noteq> None \<and> find_closest_driver s sx sy \<noteq> None \<longrightarrow>
      (\<exists>ride name s'. request_ride s rid sx sy dx dy =
         (Some ride, [RideStarted (ride_id ride) name (fare ride)], s'))) \<and>
   (dict_get (rides s) k = None \<longrightarrow> complete_ride s k = ((), [RideNotFound], s)) \<and>
   ((\<exists>r. dict_get (rides s) k = Some r \<and> completed r) \<longrightarrow>
      complete_ride s k = ((), [RideAlreadyCompleted], s)) \<and>
   (\<forall>r. dict_get (rides s) k = Some r \<and> \<not> completed r \<longrightarrow>
      (\<exists>s'. complete_ride s k = ((), [RideCompleted (ride_id r) (fare r)], s'))) \<and>
   distinct [RiderNotFound, NoAvailableDrivers, RideNotFound, RideAlreadyCompleted]"
  by (auto simp: request_ride_def complete_ride_def Let_def split: option.splits)

theorem failures_reported_by_message_witness:
  "request_ride init 7 (Finite 0) (Finite 0) (Finite 1) (Finite 0) = (None, [RiderNotFound], init) \<and>
   request_ride demo_rider_only 1 (Finite 0) (Finite 0) (Finite 1) (Finite 0) =
     (None, [NoAvailableDrivers], demo_rider_only) \<and>
   complete_ride demo_active 7 = ((), [RideNotFound], demo_active) \<and>
   complete_ride demo_mixed 1 = ((), [RideAlreadyCompleted], demo_mixed)"
proof -
  have a: "dict_get (riders init) 7 = None" by (simp add: init_def)
  have b: "dict_get (riders demo_rider_only) 1 \<noteq> None \<and>
           find_closest_driver demo_rider_only (Finite 0) (Finite 0) = None"
    unfolding demo_rider_only by (simp add: find_closest_driver_def dict_values_def)
  have c: "dict_get (rides demo_active) 7 = None" unfolding demo_active by simp
  have d: "\<exists>r. dict_get (rides demo_mixed) 1 = Some r \<and> completed r"
    unfolding demo_mixed by simp
  note t = failures_reported_by_message
  have 1: "request_ride init 7 (Finite 0) (Finite 0) (Finite 1) (Finite 0) = (None, [RiderNotFound], init)"
    by (rule t[THEN conjunct1, THEN mp, OF a])
  have 2: "request_ride demo_rider_only 1 (Finite 0) (Finite 0) (Finite 1) (Finite 0) =
           (None, [NoAvailableDrivers], demo_rider_only)"
    by (rule t[THEN conjunct2, THEN conjunct1, THEN mp, OF b])
  have 3: "complete_ride demo_active 7 = ((), [RideNotFound], demo_active)"
    by (rule t[THEN conjunct2, THEN conjunct2, THEN conjunct2, THEN conjunct1, THEN mp, OF c])
  have 4: "complete_ride demo_mixed 1 = ((), [RideAlreadyCompleted], demo_mixed)"
    by (rule t[THEN conjunct2, THEN conjunct2, THEN conjunct2, THEN conjunct2, THEN conjunct1,
          THEN mp, OF d])
  from 1 2 3 4 show ?thesis by (intro conjI)
qed

text \<open>
  The claim C4 as stated asks for results that the caller can tell apart. A request for
  an unknown rider and a request that finds no driver return the same value, and so do
  a completion that succeeds and one that fails.
\<close>

theorem same_return_value_counterexample:
  "fst (snd (request_ride init 1 (Finite 0) (Finite 0) (Finite 1) (Finite 0))) = [RiderNotFound] \<and>
   fst (snd (request_ride demo_rider_only 1 (Finite 0) (Finite 0) (Finite 1) (Finite 0))) =
     [NoAvailableDrivers] \<and>
   fst (request_ride init 1 (Finite 0) (Finite 0) (Finite 1) (Finite 0)) =
     fst (request_ride demo_rider_only 1 (Finite 0) (Finite 0) (Finite 1) (Finite 0)) \<and>
   fst (snd (complete_ride demo_active 1)) = [RideCompleted 1 (Finite 350)] \<and>
   fst (snd (complete_ride demo_active 7)) = [RideNotFound] \<and>
   fst (complete_ride demo_active 1) = fst (complete_ride demo_active 7)"
proof -
  have 1: "request_ride init 1 (Finite 0) (Finite 0) (Finite 1) (Finite 0) =
           (None, [RiderNotFound], init)"
    by (simp add: request_ride_def init_def)
  have 2: "request_ride demo_rider_only 1 (Finite 0) (Finite 0) (Finite 1) (Finite 0) =
           (None, [NoAvailableDrivers], demo_rider_only)"
    unfolding demo_rider_only
    by (simp add: request_ride_def find_closest_driver_def dict_values_def)
  have 3: "fst (snd (complete_ride demo_active 1)) = [RideCompleted 1 (Finite 350)]"
    unfolding demo_active by (simp add: complete_ride_def Let_def)
  have 4: "fst (snd (complete_ride demo_active 7)) = [RideNotFound]"
    unfolding demo_active by (simp add: complete_ride_def)
  show ?thesis unfolding 1 2 using 3 4 by simp
qed

section \<open>Failed calls\<close>

text \<open>
  C5. A call of \<open>request_ride\<close> that fails, because the rider id is unknown or because
  the search finds no driver, and a call of \<open>complete_ride\<close> that fails, because the
  ride id is unknown or the ride is already completed, return the state they were given:
  the three dictionaries, the three counters and every field of every rider, driver and
  ride are what they were before the call.
\<close>

theorem failed_call_changes_nothing:
  "(dict_get (riders s) rid = None \<longrightarrow>
      request_ride s rid sx sy dx dy = (None, [RiderNotFound], s)) \<and>
   (dict_get (riders s) rid \<noteq> None \<and> find_closest_driver s sx sy = None \<longrightarrow>
      request_ride s rid sx sy dx dy = (None, [NoAvailableDrivers], s)) \<and>
   (fst (request_ride s rid sx sy dx dy) = None \<longrightarrow>
      snd (snd (request_ride s rid sx sy dx dy)) = s) \<and>
   (dict_get (rides s) k = None \<longrightarrow> complete_ride s k = ((), [RideNotFound], s)) \<and>
   ((\<exists>r. dict_get (rides s) k = Some r \<and> completed r) \<longrightarrow>
      complete_ride s k = ((), [RideAlreadyCompleted], s))"
  by (auto simp: request_ride_def complete_ride_def Let_def split: option.splits)

theorem failed_call_changes_nothing_witness:
  "request_ride init 1 (Finite 0) (Finite 0) (Finite 1) (Finite 0) = (None, [RiderNotFound], init) \<and>
   request_ride demo_rider_only 1 (Finite 0) (Finite 0) (Finite 1) (Finite 0) =
     (None, [NoAvailableDrivers], demo_rider_only) \<and>
   complete_ride init 1 = ((), [RideNotFound], init) \<and>
   complete_ride demo_ride_done 1 = ((), [RideAlreadyCompleted], demo_ride_done)"
proof -
  have a: "dict_get (riders init) 1 = None" by (simp add: init_def)
  have b: "dict_get (riders demo_rider_only) 1 \<noteq> None \<and>
           find_closest_driver demo_rider_only (Finite 0) (Finite 0) = None"
    unfolding demo_rider_only
    by (simp add: find_closest_driver_def dict_values_def)
  have c: "dict_get (rides init) 1 = None" by (simp add: init_def)
  have d: "\<exists>r. dict_get (rides demo_ride_done) 1 = Some r \<and> completed r"
    unfolding demo_ride_done by simp
  note t = failed_call_changes_nothing
  have 1: "request_ride init 1 (Finite 0) (Finite 0) (Finite 1) (Finite 0) = (None, [RiderNotFound], init)"
    by (rule t[THEN conjunct1, THEN mp, OF a])
  have 2: "request_ride demo_rider_only 1 (Finite 0) (Finite 0) (Finite 1) (Finite 0) =
           (None, [NoAvailableDrivers], demo_rider_only)"
    by (rule t[THEN conjunct2, THEN conjunct1, THEN mp, OF b])
  have 3: "complete_ride init 1 = ((), [RideNotFound], init)"
    by (rule t[THEN conjunct2, THEN conjunct2, THEN conjunct2, THEN conjunct1, THEN mp, OF c])
  have 4: "complete_ride demo_ride_done 1 = ((), [RideAlreadyCompleted], demo_ride_done)"
    by (rule t[THEN conjunct2, THEN conjunct2, THEN conjunct2, THEN conjunct2, THEN mp, OF d])
  from 1 2 3 4 show ?thesis by (intro conjI)
qed

section \<open>Completing a ride\<close>

text \<open>
  C6. For a ride that is stored and not completed, the first call of
  \<open>complete_ride\<close> takes the success path: it prints the completion message and the
  ride is stored with \<open>completed\<close> set and every other field as before. A second
  call prints that the ride is already completed and returns the state unchanged, so
  the ride is unchanged too. From then on, whatever calls follow, the stored ride stays
  exactly that completed ride; and at any time a stored ride is either as it was or
  the same ride with \<open>completed\<close> set, so the flag goes from false to true once and
  never back.
\<close>

theorem complete_twice:
  assumes "dict_get (rides (run init cs)) k = Some r" and "\<not> completed r"
  shows "fst (snd (complete_ride (run init cs) k)) = [RideCompleted k (fare r)] \<and>
         dict_get (rides (snd (snd (complete_ride (run init cs) k)))) k =
           Some (r\<lparr>completed := True\<rparr>) \<and>
         complete_ride (snd (snd (complete_ride (run init cs) k))) k =
           ((), [RideAlreadyCompleted], snd (snd (complete_ride (run init cs) k))) \<and>
         (\<forall>cs'. dict_get (rides (run (snd (snd (complete_ride (run init cs) k))) cs')) k =
                  Some (r\<lparr>completed := True\<rparr>)) \<and>
         (\<forall>cs'. dict_get (rides (run (run init cs) cs')) k = Some r \<or>
                dict_get (rides (run (run init cs) cs')) k = Some (r\<lparr>completed := True\<rparr>))"
proof -
  let ?s = "run init cs"
  let ?s1 = "snd (snd (complete_ride ?s k))"
  have c: "consistent ?s" by (rule consistent_reachable)
  have c1: "consistent ?s1" by (rule consistent_complete_ride[OF c])
  note e = complete_ride_active[OF assms]
  have 1: "fst (snd (complete_ride ?s k)) = [RideCompleted k (fare r)]"
    unfolding e using consistent_ride(1)[OF c assms(1)] by simp
  have 2: "dict_get (rides ?s1) k = Some (r\<lparr>completed := True\<rparr>)"
    unfolding e by (simp add: dict_get_set_same)
  have 3: "complete_ride ?s1 k = ((), [RideAlreadyCompleted], ?s1)"
    using 2 by (simp add: complete_ride_def)
  have 4: "dict_get (rides (run ?s1 cs')) k = Some (r\<lparr>completed := True\<rparr>)" for cs'
    by (rule completed_ride_fixed[OF c1 2]) simp
  have 5: "dict_get (rides (run ?s cs')) k = Some r \<or>
           dict_get (rides (run ?s cs')) k = Some (r\<lparr>completed := True\<rparr>)" for cs'
    using ride_stable_run[OF c assms(1), of cs'] by blast
  from 1 2 3 4 5 show ?thesis by blast
qed

theorem complete_twice_witness:
  "fst (snd (complete_ride demo_active 1)) = [RideCompleted 1 (Finite 350)] \<and>
   complete_ride (snd (snd (complete_ride demo_active 1))) 1 =
     ((), [RideAlreadyCompleted], snd (snd (complete_ride demo_active 1)))"
proof -
  let ?r = "\<lparr>ride_id = 1, rider = \<lparr>r_id = 1, r_name = ''ann''\<rparr>, driver = 0,
            start_x = Finite 1, start_y = Finite 1, dest_x = Finite 2, dest_y = Finite 1,
            fare = Finite 350, completed = False\<rparr>"
  have n: "\<not> completed ?r" by simp
  note t = complete_twice[OF demo_active_ride[unfolded demo_active_def] n, folded demo_active_def]
  have 1: "fst (snd (complete_ride demo_active 1)) = [RideCompleted 1 (fare ?r)]"
    by (rule t[THEN conjunct1])
  have 2: "complete_ride (snd (snd (complete_ride demo_active 1))) 1 =
     ((), [RideAlreadyCompleted], snd (snd (complete_ride demo_active 1)))"
    by (rule t[THEN conjunct2, THEN conjunct2, THEN conjunct1])
  from 1 2 show ?thesis by simp
qed

text \<open>
  C7. For a ride that is stored and not completed, \<open>complete_ride\<close> sets the flag
  \<open>completed\<close> of the ride, makes the driver of the ride available and moves that
  driver to the destination of the ride. The driver of the ride is the object that the
  dictionary of drivers holds under the driver's id.
\<close>

theorem complete_releases_driver:
  assumes "dict_get (rides (run init cs)) k = Some r" and "\<not> completed r"
  shows "dict_get (rides (snd (snd (complete_ride (run init cs) k)))) k =
           Some (r\<lparr>completed := True\<rparr>) \<and>
         available (heap (snd (snd (complete_ride (run init cs) k))) ! driver r) \<and>
         d_x (heap (snd (snd (complete_ride (run init cs) k))) ! driver r) = dest_x r \<and>
         d_y (heap (snd (snd (complete_ride (run init cs) k))) ! driver r) = dest_y r \<and>
         dict_get (drivers (snd (snd (complete_ride (run init cs) k))))
           (d_id (heap (run init cs) ! driver r)) = Some (driver r) \<and>
         d_id (heap (snd (snd (complete_ride (run init cs) k))) ! driver r) =
           d_id (heap (run init cs) ! driver r)"
proof -
  let ?s = "run init cs"
  have c: "consistent ?s" by (rule consistent_reachable)
  note e = complete_ride_active[OF assms]
  note l = consistent_ride(2)[OF c assms(1)]
  have 1: "dict_get (rides (snd (snd (complete_ride ?s k)))) k = Some (r\<lparr>completed := True\<rparr>)"
    unfolding e by (simp add: dict_get_set_same)
  have 2: "available (heap (snd (snd (complete_ride ?s k))) ! driver r)"
    "d_x (heap (snd (snd (complete_ride ?s k))) ! driver r) = dest_x r"
    "d_y (heap (snd (snd (complete_ride ?s k))) ! driver r) = dest_y r"
    "d_id (heap (snd (snd (complete_ride ?s k))) ! driver r) = d_id (heap ?s ! driver r)"
    unfolding e using l by simp_all
  have 3: "dict_get (drivers (snd (snd (complete_ride ?s k)))) (d_id (heap ?s ! driver r)) =
           Some (driver r)"
    unfolding e using consistent_driver_key[OF c l] by simp
  from 1 2 3 show ?thesis by blast
qed

theorem complete_releases_driver_witness:
  "\<not> available (heap demo_active ! 0) \<and>
   available (heap (snd (snd (complete_ride demo_active 1))) ! 0) \<and>
   d_x (heap (snd (snd (complete_ride demo_active 1))) ! 0) = Finite 2 \<and>
   d_y (heap (snd (snd (complete_ride demo_active 1))) ! 0) = Finite 1 \<and>
   dict_get (drivers (snd (snd (complete_ride demo_active 1)))) 1 = Some 0"
proof -
  let ?r = "\<lparr>ride_id = 1, rider = \<lparr>r_id = 1, r_name = ''ann''\<rparr>, driver = 0,
            start_x = Finite 1, start_y = Finite 1, dest_x = Finite 2, dest_y = Finite 1,
            fare = Finite 350, completed = False\<rparr>"
  have n: "\<not> completed ?r" by simp
  have d: "driver ?r = 0" "dest_x ?r = Finite 2" "dest_y ?r = Finite 1" by simp_all
  have i: "d_id (heap demo_active ! 0) = 1" "\<not> available (heap demo_active ! 0)"
    unfolding demo_active by simp_all
  note t = complete_releases_driver[OF demo_active_ride[unfolded demo_active_def] n,
      folded demo_active_def, unfolded d i]
  from t i(2) show ?thesis by simp
qed

section \<open>Ids\<close>

text \<open>
  C8. In every state of the application the keys of each of the three dictionaries, in
  insertion order, are \<open>1, 2, ...\<close> up to the counter of the dictionary minus one, and
  every rider, driver and ride has its key as id: the ids of a type start at 1, grow by
  one with each registration or creation and are all different. A registration or a
  successful request gives the new entity the current value of its counter and adds one
  to that counter only; no call changes the counter of another type, a failed call
  changes none, and no counter ever decreases, so an id is never given twice.
\<close>

theorem sequential_ids:
  "map fst (riders (run init cs)) = [1 .. next_rider_id (run init cs) - 1] \<and>
   map (\<lambda>(k, r). r_id r) (riders (run init cs)) = [1 .. next_rider_id (run init cs) - 1] \<and>
   map fst (drivers (run init cs)) = [1 .. next_driver_id (run init cs) - 1] \<and>
   map (\<lambda>(k, a). d_id (heap (run init cs) ! a)) (drivers (run init cs)) =
     [1 .. next_driver_id (run init cs) - 1] \<and>
   map fst (rides (run init cs)) = [1 .. next_ride_id (run init cs) - 1] \<and>
   map (\<lambda>(k, r). ride_id r) (rides (run init cs)) = [1 .. next_ride_id (run init cs) - 1] \<and>
   (r_id (fst (register_rider (run init cs) name)) = next_rider_id (run init cs) \<and>
    next_rider_id (snd (snd (register_rider (run init cs) name))) = next_rider_id (run init cs) + 1 \<and>
    next_driver_id (snd (snd (register_rider (run init cs) name))) = next_driver_id (run init cs) \<and>
    next_ride_id (snd (snd (register_rider (run init cs) name))) = next_ride_id (run init cs)) \<and>
   (d_id (heap (snd (snd (register_driver (run init cs) name x y))) !
            fst (register_driver (run init cs) name x y)) = next_driver_id (run init cs) \<and>
    next_rider_id (snd (snd (register_driver (run init cs) name x y))) = next_rider_id (run init cs) \<and>
    next_driver_id (snd (snd (register_driver (run init cs) name x y))) =
      next_driver_id (run init cs) + 1 \<and>
    next_ride_id (snd (snd (register_driver (run init cs) name x y))) = next_ride_id (run init cs)) \<and>
   ((\<forall>ride. fst (request_ride (run init cs) rid sx sy dx dy) = Some ride \<longrightarrow>
       ride_id ride = next_ride_id (run init cs) \<and>
       next_ride_id (snd (snd (request_ride (run init cs) rid sx sy dx dy))) =
         next_ride_id (run init cs) + 1) \<and>
    (fst (request_ride (run init cs) rid sx sy dx dy) = None \<longrightarrow>
       next_ride_id (snd (snd (request_ride (run init cs) rid sx sy dx dy))) =
         next_ride_id (run init cs)) \<and>
    next_rider_id (snd (snd (request_ride (run init cs) rid sx sy dx dy))) =
      next_rider_id (run init cs) \<and>
    next_driver_id (snd (snd (request_ride (run init cs) rid sx sy dx dy))) =
      next_driver_id (run init cs)) \<and>
   (next_rider_id (snd (snd (complete_ride (run init cs) k))) = next_rider_id (run init cs) \<and>
    next_driver_id (snd (snd (complete_ride (run init cs) k))) = next_driver_id (run init cs) \<and>
    next_ride_id (snd (snd (complete_ride (run init cs) k))) = next_ride_id (run init cs)) \<and>
   (next_rider_id (run init cs) \<le> next_rider_id (run (run init cs) cs') \<and>
    next_driver_id (run init cs) \<le> next_driver_id (run (run init cs) cs') \<and>
    next_ride_id (run init cs) \<le> next_ride_id (run (run init cs) cs'))"
proof -
  let ?s = "run init cs"
  note i = consistent_ids[OF consistent_reachable[of cs]]
  have a: "r_id (fst (register_rider ?s name)) = next_rider_id ?s \<and>
    next_rider_id (snd (snd (register_rider ?s name))) = next_rider_id ?s + 1 \<and>
    next_driver_id (snd (snd (register_rider ?s name))) = next_driver_id ?s \<and>
    next_ride_id (snd (snd (register_rider ?s name))) = next_ride_id ?s"
    by (simp add: register_rider_eq)
  have b: "d_id (heap (snd (snd (register_driver ?s name x y))) !
            fst (register_driver ?s name x y)) = next_driver_id ?s \<and>
    next_rider_id (snd (snd (register_driver ?s name x y))) = next_rider_id ?s \<and>
    next_driver_id (snd (snd (register_driver ?s name x y))) = next_driver_id ?s + 1 \<and>
    next_ride_id (snd (snd (register_driver ?s name x y))) = next_ride_id ?s"
    by (simp add: register_driver_eq)
  have c1: "ride_id ride = next_ride_id ?s \<and>
       next_ride_id (snd (snd (request_ride ?s rid sx sy dx dy))) = next_ride_id ?s + 1"
    if "fst (request_ride ?s rid sx sy dx dy) = Some ride" for ride
  proof -
    have "request_ride ?s rid sx sy dx dy =
            (Some ride, fst (snd (request_ride ?s rid sx sy dx dy)),
             snd (snd (request_ride ?s rid sx sy dx dy)))"
      using that by (metis prod.collapse)
    from request_ride_Some(3)[OF this] that show ?thesis
      by (simp add: request_ride_counters)
  qed
  have c2: "fst (request_ride ?s rid sx sy dx dy) = None \<longrightarrow>
       next_ride_id (snd (snd (request_ride ?s rid sx sy dx dy))) = next_ride_id ?s"
    by (simp add: request_ride_counters)
  note c3 = request_ride_counters(1,2)[of ?s rid sx sy dx dy]
  note d = complete_ride_counters[of ?s k]
  note e = counters_mono_run[of ?s cs']
  show ?thesis
    apply (intro conjI)
    apply (rule i(1))
    apply (rule i(2))
    apply (rule i(3))
    apply (rule i(4))
    apply (rule i(5))
    apply (rule i(6))
    apply (rule a[THEN conjunct1])
    apply (rule a[THEN conjunct2, THEN conjunct1])
    apply (rule a[THEN conjunct2, THEN conjunct2, THEN conjunct1])
    apply (rule a[THEN conjunct2, THEN conjunct2, THEN conjunct2])
    apply (rule b[THEN conjunct1])
    apply (rule b[THEN conjunct2, THEN conjunct1])
    apply (rule b[THEN conjunct2, THEN conjunct2, THEN conjunct1])
    apply (rule b[THEN conjunct2, THEN conjunct2, THEN conjunct2])
    apply (use c1 in blast)
    apply (rule c2)
    apply (rule c3(1))
    apply (rule c3(2))
    apply (rule d(1))
    apply (rule d(2))
    apply (rule d(3))
    apply (rule e[THEN conjunct1])
    apply (rule e[THEN conjunct2, THEN conjunct1])
    apply (rule e[THEN conjunct2, THEN conjunct2])
    done
qed

theorem sequential_ids_witness:
  "map fst (riders demo_two_rides) = [1] \<and> next_rider_id demo_two_rides = 2 \<and>
   map fst (drivers demo_two_rides) = [1, 2] \<and> next_driver_id demo_two_rides = 3 \<and>
   map fst (rides demo_two_rides) = [1, 2] \<and> next_ride_id demo_two_rides = 3 \<and>
   map (\<lambda>(k, r). ride_id r) (rides demo_two_rides) = [1 .. next_ride_id demo_two_rides - 1] \<and>
   ride_id \<lparr>ride_id = 2, rider = \<lparr>r_id = 1, r_name = ''ann''\<rparr>, driver = 1,
            start_x = Finite 1, start_y = Finite 1, dest_x = Finite 2, dest_y = Finite 1,
            fare = Finite 350, completed = False\<rparr> = next_ride_id demo_active"
proof -
  note t = sequential_ids[where cs = "[RegisterRider ''ann'', RegisterDriver ''bob'' (Finite 0) (Finite 0),
               RegisterDriver ''cy'' (Finite 10) (Finite 10),
               RequestRide 1 (Finite 1) (Finite 1) (Finite 2) (Finite 1),
               RequestRide 1 (Finite 1) (Finite 1) (Finite 2) (Finite 1)]", folded demo_two_rides_def]
  note u = sequential_ids[where cs = "[RegisterRider ''ann'', RegisterDriver ''bob'' (Finite 0) (Finite 0),
               RegisterDriver ''cy'' (Finite 10) (Finite 10),
               RequestRide 1 (Finite 1) (Finite 1) (Finite 2) (Finite 1)]"
      and rid = 1 and sx = "Finite 1" and sy = "Finite 1" and dx = "Finite 2" and dy = "Finite 1",
      folded demo_active_def]
  have a: "map (\<lambda>(k, r). ride_id r) (rides demo_two_rides) = [1 .. next_ride_id demo_two_rides - 1]"
    by (rule t[THEN conjunct2, THEN conjunct2, THEN conjunct2, THEN conjunct2, THEN conjunct2, THEN conjunct1])
  have f: "fst (request_ride demo_active 1 (Finite 1) (Finite 1) (Finite 2) (Finite 1)) =
     Some \<lparr>ride_id = 2, rider = \<lparr>r_id = 1, r_name = ''ann''\<rparr>, driver = 1,
            start_x = Finite 1, start_y = Finite 1, dest_x = Finite 2, dest_y = Finite 1,
            fare = Finite 350, completed = False\<rparr>"
    by (simp add: demo_active_request)
  have b: "ride_id \<lparr>ride_id = 2, rider = \<lparr>r_id = 1, r_name = ''ann''\<rparr>, driver = 1,
            start_x = Finite 1, start_y = Finite 1, dest_x = Finite 2, dest_y = Finite 1,
            fare = Finite 350, completed = False\<rparr> = next_ride_id demo_active"
    using u[THEN conjunct2, THEN conjunct2, THEN conjunct2, THEN conjunct2, THEN conjunct2,
        THEN conjunct2, THEN conjunct2, THEN conjunct2, THEN conjunct1, THEN conjunct1,
        THEN spec, THEN mp, OF f]
    by (rule conjunct1)
  have c: "map fst (riders demo_two_rides) = [1]" "next_rider_id demo_two_rides = 2"
    "map fst (drivers demo_two_rides) = [1, 2]" "next_driver_id demo_two_rides = 3"
    "map fst (rides demo_two_rides) = [1, 2]" "next_ride_id demo_two_rides = 3"
    unfolding demo_two_rides by simp_all
  from a b c show ?thesis by (intro conjI)
qed

section \<open>Listing the rides\<close>

text \<open>
  C9. In every state of the application \<open>list_rides\<close> prints one line for each stored
  ride, with the id of the ride, the status, the name of its rider and the name of its
  driver. The status is \<open>completed\<close> when the flag of the ride is set and
  \<open>active\<close> otherwise. The lines come in strictly ascending order of the ride id.
  Each line is about the ride stored under that id, its rider is the registered rider
  with the rider's id and its driver is the registered driver with the driver's id. The
  call returns the state it was given.
\<close>

theorem list_rides_summaries:
  "list_rides (run init cs) =
     ((), map (\<lambda>r. RideLine (ride_id r) (if completed r then ''completed'' else ''active'')
                      (r_name (rider r)) (d_name (heap (run init cs) ! driver r)))
              (dict_values (rides (run init cs))),
      run init cs) \<and>
   sorted_wrt (<) (map ride_id (dict_values (rides (run init cs)))) \<and>
   (\<forall>r \<in> set (dict_values (rides (run init cs))).
      dict_get (rides (run init cs)) (ride_id r) = Some r \<and>
      dict_get (riders (run init cs)) (r_id (rider r)) = Some (rider r) \<and>
      dict_get (drivers (run init cs)) (d_id (heap (run init cs) ! driver r)) = Some (driver r))"
proof -
  let ?s = "run init cs"
  have c: "consistent ?s" by (rule consistent_reachable)
  have 1: "list_rides ?s =
     ((), map (\<lambda>r. RideLine (ride_id r) (if completed r then ''completed'' else ''active'')
                      (r_name (rider r)) (d_name (heap ?s ! driver r)))
              (dict_values (rides ?s)), ?s)"
    by (simp add: list_rides_def)
  have "map ride_id (dict_values (rides ?s)) = map (\<lambda>(k, r). ride_id r) (rides ?s)"
    by (simp add: dict_values_def case_prod_unfold)
  then have 2: "sorted_wrt (<) (map ride_id (dict_values (rides ?s)))"
    using consistent_ids(6)[OF c] strict_upto by simp
  have 3: "dict_get (rides ?s) (ride_id r) = Some r \<and>
      dict_get (riders ?s) (r_id (rider r)) = Some (rider r) \<and>
      dict_get (drivers ?s) (d_id (heap ?s ! driver r)) = Some (driver r)"
    if "r \<in> set (dict_values (rides ?s))" for r
  proof -
    from that obtain k where m: "(k, r) \<in> set (rides ?s)" by (auto simp: dict_values_def)
    then have k: "ride_id r = k" and l: "driver r < length (heap ?s)"
      and rin: "(r_id (rider r), rider r) \<in> set (riders ?s)"
      using c unfolding consistent_def by fastforce+
    have d1: "distinct (map fst (rides ?s))" unfolding consistent_ids(5)[OF c] by simp
    have d2: "distinct (map fst (riders ?s))" unfolding consistent_ids(1)[OF c] by simp
    have "dict_get (rides ?s) (ride_id r) = Some r"
      unfolding dict_get_map_of using d1 m k by simp
    moreover have "dict_get (riders ?s) (r_id (rider r)) = Some (rider r)"
      unfolding dict_get_map_of using d2 rin by simp
    ultimately show ?thesis using consistent_driver_key[OF c l] by simp
  qed
  from 1 2 3 show ?thesis by blast
qed

theorem list_rides_summaries_witness:
  "list_rides demo_mixed =
     ((), [RideLine 1 ''completed'' ''ann'' ''bob'', RideLine 2 ''active'' ''ann'' ''cy''],
      demo_mixed)"
proof -
  note t = list_rides_summaries[where cs = "[RegisterRider ''ann'',
               RegisterDriver ''bob'' (Finite 0) (Finite 0),
               RegisterDriver ''cy'' (Finite 10) (Finite 10),
               RequestRide 1 (Finite 1) (Finite 1) (Finite 2) (Finite 1),
               RequestRide 1 (Finite 1) (Finite 1) (Finite 2) (Finite 1),
               CompleteRide 1]", folded demo_mixed_def, THEN conjunct1]
  have "map (\<lambda>r. RideLine (ride_id r) (if completed r then ''completed'' else ''active'')
                      (r_name (rider r)) (d_name (heap demo_mixed ! driver r)))
              (dict_values (rides demo_mixed)) =
        [RideLine 1 ''completed'' ''ann'' ''bob'', RideLine 2 ''active'' ''ann'' ''cy'']"
    unfolding demo_mixed by (simp add: dict_values_def)
  with t show ?thesis by simp
qed

section \<open>A rider may hold several rides\<close>




end
